theory Spec2Isabelle
  imports
    Complex_Main
    "HOL-Library.Multiset"
    "HOL-Library.AList"
    "HOL-Library.List_Lexorder"
    "HOL-Library.Char_ord"
    "HOL-Library.Product_Lexorder"
    "HOL-Library.Log_Nat"
begin

section \<open>Parental gene assignment (cat/parent\_gene\_assignment.py)\<close>

text \<open>
  A shallow embedding of \<^verbatim>\<open>assign_parents\<close>, \<^verbatim>\<open>calculate_tx_overlap\<close>,
  \<^verbatim>\<open>resolve_multiple_genes\<close> and \<^verbatim>\<open>find_highest_gene_jaccard\<close>.

  \<^item> A Python float (an overlap score, \<^verbatim>\<open>min_distance\<close>, \<^verbatim>\<open>tm_jaccard_distance\<close>) is the
    rational number that the double denotes. Comparisons of floats are exact. The one
    arithmetic operation of the source on floats, the subtraction of line 241, rounds its
    exact result to the nearest double (\<open>float_sub\<close>); infinities and NaN are not modelled.
  \<^item> Exceptions are values: a function that can raise returns \<open>py_error + 'a\<close>.
  \<^item> A Python \<^verbatim>\<open>dict\<close> that is iterated is an association list in insertion order; a
    \<^verbatim>\<open>dict\<close> that is only looked up is a map.
  \<^item> A Python \<^verbatim>\<open>set\<close> of strings, whose iteration order the code never relies on, is a
    HOL set. A Python \<^verbatim>\<open>set\<close> of transcript objects is a duplicate-free list of its
    members; wherever the code iterates such a set, the model iterates \<open>enum members\<close>,
    where the parameter \<open>enum\<close> stands for the interpreter's enumeration order.
  \<^item> The functions of the \<^verbatim>\<open>tools\<close> package, which are not part of the source file, are
    parameters, collected in the record \<open>tools\<close>.
  \<^item> The model starts after the call of the external \<^verbatim>\<open>clusterGenes\<close> program: its inputs
    are the three transcript dictionaries and the cluster table.
\<close>

subsection \<open>Data model\<close>

type_synonym interval = "int \<times> int"

record transcript =
  name :: string
  name2 :: string
  exon_intervals :: "interval list"

datatype py_error = KeyError | IndexError | ValueError

datatype resolution_method = rescued | badAnnotOrTm | ambiguousOrFusion

text \<open>The rows of the cluster table: the columns \<^verbatim>\<open>#cluster\<close>, \<^verbatim>\<open>gene\<close> (a transcript
  identifier) and \<^verbatim>\<open>exonConflicts\<close> (\<open>None\<close> for NaN).\<close>

record cluster_row =
  cluster :: int
  gene :: string
  exonConflicts :: "string option"

text \<open>The rows of the returned table.\<close>

record assignment =
  TranscriptId :: string
  AssignedGeneId :: "string option"
  AlternativeGeneIds :: "string option"
  ResolutionMethod :: "resolution_method option"

text \<open>The functions of \<^verbatim>\<open>tools.nameConversions\<close> and \<^verbatim>\<open>tools.intervals\<close> that the source
  calls. \<^verbatim>\<open>gap_merge_intervals\<close> receives a Python set of intervals.\<close>

record tools =
  aln_id_is_denovo :: "string \<Rightarrow> bool"
  calculate_bed12_asymmetric_jaccard :: "interval list \<Rightarrow> interval list \<Rightarrow> rat"
  calculate_bed12_jaccard :: "interval list \<Rightarrow> interval list \<Rightarrow> rat"
  gap_merge_intervals :: "interval set \<Rightarrow> nat \<Rightarrow> interval list"

type_synonym tx_dict = "string \<rightharpoonup> transcript"

subsection \<open>Python built-ins\<close>

text \<open>\<^verbatim>\<open>d[k].append(v)\<close> if \<^verbatim>\<open>k in d\<close>, else \<^verbatim>\<open>d[k] = [v]\<close>; also the behaviour of a
  \<^verbatim>\<open>defaultdict(list)\<close>. A new key goes to the end, an old key keeps its place.\<close>

definition dict_append :: "('k \<times> 'v list) list \<Rightarrow> 'k \<Rightarrow> 'v \<Rightarrow> ('k \<times> 'v list) list" where
  "dict_append d k v =
     (case map_of d k of
        None \<Rightarrow> AList.update k [v] d
      | Some vs \<Rightarrow> AList.update k (vs @ [v]) d)"

text \<open>\<^verbatim>\<open>s.add(x)\<close> on a set kept as a duplicate-free list.\<close>

definition set_add :: "'a \<Rightarrow> 'a list \<Rightarrow> 'a list" where
  "set_add x xs = (if x \<in> set xs then xs else xs @ [x])"

text \<open>\<^verbatim>\<open>max(xs)\<close>: ValueError on the empty sequence.\<close>

fun py_max :: "'a::linorder list \<Rightarrow> py_error + 'a" where
  "py_max [] = Inl ValueError"
| "py_max (x # xs) = Inr (fold max xs x)"

text \<open>\<^verbatim>\<open>max(xs, key=f)\<close>: the first element whose key is maximal.\<close>

fun py_max_key :: "('a \<Rightarrow> 'b::linorder) \<Rightarrow> 'a list \<Rightarrow> py_error + 'a" where
  "py_max_key f [] = Inl ValueError"
| "py_max_key f (x # xs) = Inr (fold (\<lambda>y b. if f y > f b then y else b) xs x)"

text \<open>\<^verbatim>\<open>xs[-1]\<close>.\<close>

fun py_last :: "'a list \<Rightarrow> py_error + 'a" where
  "py_last [] = Inl IndexError"
| "py_last (x # xs) = Inr (last (x # xs))"

text \<open>\<^verbatim>\<open>itertools.combinations(xs, 2)\<close>.\<close>

fun combinations2 :: "'a list \<Rightarrow> ('a \<times> 'a) list" where
  "combinations2 [] = []"
| "combinations2 (x # xs) = map (Pair x) xs @ combinations2 xs"

text \<open>\<^verbatim>\<open>s.split(sep)\<close> for a separator of one character.\<close>

fun split_on :: "char \<Rightarrow> string \<Rightarrow> string list" where
  "split_on sep [] = [[]]"
| "split_on sep (c # cs) =
     (if c = sep then [] # split_on sep cs
      else (case split_on sep cs of
              [] \<Rightarrow> [[c]]
            | w # ws \<Rightarrow> (c # w) # ws))"

text \<open>\<^verbatim>\<open>sub in s\<close> for strings.\<close>

fun starts_with :: "string \<Rightarrow> string \<Rightarrow> bool" where
  "starts_with [] s = True"
| "starts_with (p # ps) [] = False"
| "starts_with (p # ps) (c # cs) = (p = c \<and> starts_with ps cs)"

fun str_contains :: "string \<Rightarrow> string \<Rightarrow> bool" where
  "str_contains sub [] = (sub = [])"
| "str_contains sub (c # cs) = (starts_with sub (c # cs) \<or> str_contains sub cs)"

text \<open>\<^verbatim>\<open>sep.join(xs)\<close>.\<close>

fun py_join :: "string \<Rightarrow> string list \<Rightarrow> string" where
  "py_join sep [] = []"
| "py_join sep [x] = x"
| "py_join sep (x # y # ys) = x @ sep @ py_join sep (y # ys)"

subsection \<open>Python floats\<close>

text \<open>The exponent of a positive rational: \<open>2 powi e \<le> q < 2 powi (e + 1)\<close>.\<close>

definition floor_log2 :: "rat \<Rightarrow> int" where
  "floor_log2 q =
     (let e0 = bitlen (fst (quotient_of q)) - bitlen (snd (quotient_of q))
      in if 2 powi e0 \<le> q then e0 else e0 - 1)"

text \<open>Rounding to the nearest integer, a tie to the even one.\<close>

definition round_half_even :: "rat \<Rightarrow> int" where
  "round_half_even m =
     (let f = \<lfloor>m\<rfloor>; d = m - of_int f
      in if d < 1 / 2 then f else if d > 1 / 2 then f + 1 else if even f then f else f + 1)"

text \<open>The distance between neighbouring doubles at a positive magnitude: 53 significant
  bits, and the least exponent -1022 for the subnormal numbers.\<close>

definition double_ulp :: "rat \<Rightarrow> rat" where
  "double_ulp a = 2 powi (max (floor_log2 a) (- 1022) - 52)"

text \<open>The IEEE 754 double nearest to a rational, ties to even.\<close>

definition round_to_double :: "rat \<Rightarrow> rat" where
  "round_to_double q =
     (if q = 0 then 0
      else sgn q * of_int (round_half_even (\<bar>q\<bar> / double_ulp \<bar>q\<bar>)) * double_ulp \<bar>q\<bar>)"

text \<open>\<^verbatim>\<open>x - y\<close> on floats: the exact difference, rounded.\<close>

definition float_sub :: "rat \<Rightarrow> rat \<Rightarrow> rat" where
  "float_sub x y = round_to_double (x - y)"

subsection \<open>\<^verbatim>\<open>calculate_tx_overlap\<close>\<close>

fun tx_overlap_loop ::
  "tools \<Rightarrow> transcript \<Rightarrow> string list \<Rightarrow> tx_dict \<Rightarrow> rat \<Rightarrow> py_error + rat" where
  "tx_overlap_loop T tx [] tx_dict best_overlap = Inr best_overlap"
| "tx_overlap_loop T tx (nm # tx_list) tx_dict best_overlap =
     (case tx_dict nm of
        None \<Rightarrow> Inl KeyError
      | Some tx2 \<Rightarrow>
          (let overlap = calculate_bed12_asymmetric_jaccard T (exon_intervals tx) (exon_intervals tx2)
           in tx_overlap_loop T tx tx_list tx_dict
                (if overlap > best_overlap then overlap else best_overlap)))"

definition calculate_tx_overlap ::
  "tools \<Rightarrow> transcript \<Rightarrow> string list \<Rightarrow> tx_dict \<Rightarrow> py_error + rat" where
  "calculate_tx_overlap T tx tx_list tx_dict = tx_overlap_loop T tx tx_list tx_dict 0"

subsection \<open>\<^verbatim>\<open>find_highest_gene_jaccard\<close>\<close>

definition find_interval :: "tools \<Rightarrow> transcript list \<Rightarrow> interval list" where
  "find_interval T gene_list =
     gap_merge_intervals T (\<Union>tx \<in> set gene_list. set (exon_intervals tx)) 0"

definition find_highest_gene_jaccard :: "tools \<Rightarrow> transcript list \<Rightarrow> transcript list \<Rightarrow> rat" where
  "find_highest_gene_jaccard T gene_list_a gene_list_b =
     calculate_bed12_jaccard T (find_interval T gene_list_a) (find_interval T gene_list_b)"

subsection \<open>\<^verbatim>\<open>resolve_multiple_genes\<close>\<close>

text \<open>Modelled from the spec: \<^verbatim>\<open>tools.transcripts.group_transcripts_by_name2\<close> is not in
  the source file; the specification has it group the candidate reference transcripts by
  gene. The groups are kept in the order in which their genes are first met.\<close>

definition group_transcripts_by_name2 :: "transcript list \<Rightarrow> (string \<times> transcript list) list" where
  "group_transcripts_by_name2 txs = fold (\<lambda>tx d. dict_append d (name2 tx) tx) txs []"

text \<open>Lines 233 to 236: the \<^verbatim>\<open>defaultdict\<close> of the scores of each gene.\<close>

definition asymmetric_scores ::
  "tools \<Rightarrow> transcript \<Rightarrow> transcript list \<Rightarrow> (string \<times> rat list) list" where
  "asymmetric_scores T denovo_tx overlapping_tm_txs =
     fold (\<lambda>tx scores. dict_append scores (name2 tx)
             (calculate_bed12_asymmetric_jaccard T (exon_intervals denovo_tx) (exon_intervals tx)))
          overlapping_tm_txs []"

text \<open>Line 237: \<^verbatim>\<open>{gene_id: max(scores[gene_id]) for gene_id in scores}\<close>.\<close>

fun best_scores_of :: "(string \<times> rat list) list \<Rightarrow> py_error + (string \<times> rat) list" where
  "best_scores_of [] = Inr []"
| "best_scores_of ((gene_id, s) # scores) =
     (case py_max s of
        Inl e \<Rightarrow> Inl e
      | Inr m \<Rightarrow>
          (case best_scores_of scores of
             Inl e \<Rightarrow> Inl e
           | Inr best_scores \<Rightarrow> Inr ((gene_id, m) # best_scores)))"

text \<open>Lines 238 to 248, on the dictionary \<^verbatim>\<open>best_scores\<close>. Line 239 takes the maximum
  over the keys by the value of each key; the model takes it over the items by their second
  component. Line 241 subtracts floats. Line 242 sorts the items by their second component; \<open>sort_key\<close> is stable, as
  \<^verbatim>\<open>sorted\<close> is.\<close>

definition decide_best ::
  "(string \<times> rat) list \<Rightarrow> rat \<Rightarrow> py_error + (string option \<times> resolution_method)" where
  "decide_best best_scores min_distance =
     (case py_max (map snd best_scores) of
        Inl e \<Rightarrow> Inl e
      | Inr high_score \<Rightarrow>
     (case py_max_key snd best_scores of
        Inl e \<Rightarrow> Inl e
      | Inr high_item \<Rightarrow>
          (let high_gene = fst high_item in
           if list_all (\<lambda>x. float_sub high_score x \<ge> min_distance)
                (filter (\<lambda>x. x \<noteq> high_score) (map snd best_scores))
           then (case py_last (sort_key snd best_scores) of
                   Inl e \<Rightarrow> Inl e
                 | Inr best_item \<Rightarrow>
                     (let best = fst best_item in
                      if best \<noteq> high_gene then Inr (None, ambiguousOrFusion)
                      else Inr (Some best, rescued)))
           else Inr (None, ambiguousOrFusion))))"

text \<open>Lines 226 to 230: the Jaccard values of all pairs of gene groups.\<close>

definition tm_jaccards_of :: "tools \<Rightarrow> transcript list \<Rightarrow> rat list" where
  "tm_jaccards_of T overlapping_tm_txs =
     map (\<lambda>(x, y). find_highest_gene_jaccard T x y)
         (combinations2 (map snd (group_transcripts_by_name2 overlapping_tm_txs)))"

definition resolve_multiple_genes ::
  "tools \<Rightarrow> transcript \<Rightarrow> transcript list \<Rightarrow> rat \<Rightarrow> rat
     \<Rightarrow> py_error + (string option \<times> resolution_method)" where
  "resolve_multiple_genes T denovo_tx overlapping_tm_txs min_distance tm_jaccard_distance =
     (if list_all (\<lambda>x. x > tm_jaccard_distance) (tm_jaccards_of T overlapping_tm_txs)
      then Inr (None, badAnnotOrTm)
      else (case best_scores_of (asymmetric_scores T denovo_tx overlapping_tm_txs) of
              Inl e \<Rightarrow> Inl e
            | Inr best_scores \<Rightarrow> decide_best best_scores min_distance))"

subsection \<open>\<^verbatim>\<open>assign_parents\<close>: the partition of a cluster (lines 58 to 87)\<close>

text \<open>Lines 63 to 69. The accumulator holds \<^verbatim>\<open>unfiltered_overlapping_tm_txs\<close>,
  \<^verbatim>\<open>filtered_overlapping_tm_txs\<close> and \<^verbatim>\<open>denovo_txs\<close>. A failed dictionary lookup raises
  KeyError.\<close>

fun partition_cluster ::
  "tx_dict \<Rightarrow> tx_dict \<Rightarrow> tx_dict \<Rightarrow> (string \<times> bool) list
     \<Rightarrow> transcript list \<times> transcript list \<times> transcript list
     \<Rightarrow> py_error + (transcript list \<times> transcript list \<times> transcript list)" where
  "partition_cluster filtered_transmap_dict unfiltered_transmap_dict denovo_dict [] acc = Inr acc"
| "partition_cluster filtered_transmap_dict unfiltered_transmap_dict denovo_dict
     ((tx_id, is_denovo) # rest) (unfiltered_txs, filtered_txs, denovo_txs) =
     (if is_denovo then
        (case denovo_dict tx_id of
           None \<Rightarrow> Inl KeyError
         | Some tx \<Rightarrow>
             partition_cluster filtered_transmap_dict unfiltered_transmap_dict denovo_dict rest
               (unfiltered_txs, filtered_txs, set_add tx denovo_txs))
      else
        (case filtered_transmap_dict tx_id of
           Some tx \<Rightarrow>
             partition_cluster filtered_transmap_dict unfiltered_transmap_dict denovo_dict rest
               (unfiltered_txs, set_add tx filtered_txs, denovo_txs)
         | None \<Rightarrow>
             (case unfiltered_transmap_dict tx_id of
                None \<Rightarrow> Inl KeyError
              | Some tx \<Rightarrow>
                  partition_cluster filtered_transmap_dict unfiltered_transmap_dict denovo_dict rest
                    (set_add tx unfiltered_txs, filtered_txs, denovo_txs))))"

text \<open>Lines 74 to 87: both dictionaries are filled from the filtered transcripts first and
  the unfiltered transcripts second, so the argument is the two enumerations appended.\<close>

definition tx_to_gene_ids_of :: "transcript list \<Rightarrow> (string \<rightharpoonup> string)" where
  "tx_to_gene_ids_of txs = fold (\<lambda>tx m. m(name tx \<mapsto> name2 tx)) txs Map.empty"

definition gene_to_tx_ids_of :: "transcript list \<Rightarrow> (string \<times> string list) list" where
  "gene_to_tx_ids_of txs = fold (\<lambda>tx d. dict_append d (name2 tx) (name tx)) txs []"

subsection \<open>\<^verbatim>\<open>assign_parents\<close>: one de novo transcript (lines 89 to 204)\<close>

text \<open>Lines 95 to 97: the first non-NaN \<^verbatim>\<open>exonConflicts\<close> value among the rows of the whole
  table whose \<^verbatim>\<open>gene\<close> is the transcript.\<close>

definition exon_conflict_field :: "cluster_row list \<Rightarrow> string \<Rightarrow> string option" where
  "exon_conflict_field cluster_df nm =
     (case List.map_filter exonConflicts (filter (\<lambda>r. gene r = nm) cluster_df) of
        [] \<Rightarrow> None
      | c # _ \<Rightarrow> Some c)"

text \<open>Line 99: \<^verbatim>\<open>.split(',')[:-1]\<close>.\<close>

definition parse_exon_conflicts :: "string \<Rightarrow> string list" where
  "parse_exon_conflicts c = butlast (split_on CHR '','' c)"

text \<open>Lines 101 to 104. The source computes this set and never reads it.\<close>

definition is_denovo_conflict :: "string \<Rightarrow> bool" where
  "is_denovo_conflict tx = (str_contains ''augPB'' tx \<or> str_contains ''augCGP'' tx)"

definition denovo_exon_conflicts :: "string list \<Rightarrow> string set" where
  "denovo_exon_conflicts exon_conflicts = set (filter is_denovo_conflict exon_conflicts)"

text \<open>Lines 106 to 122. The accumulator holds \<^verbatim>\<open>nonoverlapping_genes\<close> and
  \<^verbatim>\<open>refiltered_nonoverlapping_tm_txs\<close>; \<^verbatim>\<open>conflict.split(':')[1]\<close> raises IndexError when the
  entry has no colon.\<close>

fun scan_conflicts ::
  "(string \<rightharpoonup> string) \<Rightarrow> tx_dict \<Rightarrow> string list
     \<Rightarrow> (string \<times> string list) list \<times> transcript list
     \<Rightarrow> py_error + ((string \<times> string list) list \<times> transcript list)" where
  "scan_conflicts tx_to_gene_ids filtered_transmap_dict [] acc = Inr acc"
| "scan_conflicts tx_to_gene_ids filtered_transmap_dict (conflict # rest)
     (nonoverlapping_genes, refiltered_nonoverlapping_tm_txs) =
     (case split_on CHR '':'' conflict of
        _ # tx_conflict # _ \<Rightarrow>
          (case tx_to_gene_ids tx_conflict of
             None \<Rightarrow>
               scan_conflicts tx_to_gene_ids filtered_transmap_dict rest
                 (nonoverlapping_genes, refiltered_nonoverlapping_tm_txs)
           | Some g \<Rightarrow>
               scan_conflicts tx_to_gene_ids filtered_transmap_dict rest
                 (dict_append nonoverlapping_genes g tx_conflict,
                  (case filtered_transmap_dict tx_conflict of
                     None \<Rightarrow> refiltered_nonoverlapping_tm_txs
                   | Some tx \<Rightarrow> set_add tx refiltered_nonoverlapping_tm_txs)))
      | _ \<Rightarrow> Inl IndexError)"

text \<open>Lines 123 to 125.\<close>

definition nonoverlapping_gene_ids_of ::
  "(string \<times> string list) list \<Rightarrow> (string \<times> string list) list \<Rightarrow> string set" where
  "nonoverlapping_gene_ids_of gene_to_tx_ids nonoverlapping_genes =
     set (filter
            (\<lambda>g. case map_of nonoverlapping_genes g of
                    None \<Rightarrow> False
                  | Some cs \<Rightarrow>
                      (case map_of gene_to_tx_ids g of
                         None \<Rightarrow> False
                       | Some ts \<Rightarrow> length cs = length ts))
            (map fst gene_to_tx_ids))"

text \<open>The best overlap of a gene: \<^verbatim>\<open>gene_to_tx_ids[g]\<close>, then \<^verbatim>\<open>calculate_tx_overlap\<close>
  on the unfiltered dictionary.\<close>

definition gene_overlap ::
  "tools \<Rightarrow> transcript \<Rightarrow> (string \<times> string list) list \<Rightarrow> tx_dict \<Rightarrow> string \<Rightarrow> py_error + rat" where
  "gene_overlap T denovo_tx gene_to_tx_ids unfiltered_transmap_dict g =
     (case map_of gene_to_tx_ids g of
        None \<Rightarrow> Inl KeyError
      | Some tx_list \<Rightarrow> calculate_tx_overlap T denovo_tx tx_list unfiltered_transmap_dict)"

text \<open>Lines 136 to 142, 150 to 156 and 183 to 189 (the same statements three times): the
  check of a single gene.\<close>

definition single_gene_match ::
  "tools \<Rightarrow> transcript \<Rightarrow> (string \<times> string list) list \<Rightarrow> tx_dict \<Rightarrow> rat \<Rightarrow> string
     \<Rightarrow> py_error + (string option \<times> resolution_method option)" where
  "single_gene_match T denovo_tx gene_to_tx_ids unfiltered_transmap_dict min_distance tx_name =
     (case gene_overlap T denovo_tx gene_to_tx_ids unfiltered_transmap_dict tx_name of
        Inl e \<Rightarrow> Inl e
      | Inr ov \<Rightarrow> if ov > min_distance then Inr (Some tx_name, None) else Inr (None, None))"

text \<open>The call of \<^verbatim>\<open>resolve_multiple_genes\<close> on a set of transcripts, enumerated.\<close>

definition resolve_pool ::
  "tools \<Rightarrow> (transcript list \<Rightarrow> transcript list) \<Rightarrow> transcript \<Rightarrow> transcript list \<Rightarrow> rat \<Rightarrow> rat
     \<Rightarrow> py_error + (string option \<times> resolution_method option)" where
  "resolve_pool T enum denovo_tx pool min_distance tm_jaccard_distance =
     (case resolve_multiple_genes T denovo_tx (enum pool) min_distance tm_jaccard_distance of
        Inl e \<Rightarrow> Inl e
      | Inr (resolved_name, m) \<Rightarrow> Inr (resolved_name, Some m))"

text \<open>Lines 165 to 170 and 194 to 199: the alternative genes that overlap enough. The loop
  raises KeyError if a lookup fails for any of the genes.\<close>

definition filtered_alternative_gene_ids_of ::
  "tools \<Rightarrow> transcript \<Rightarrow> (string \<times> string list) list \<Rightarrow> tx_dict \<Rightarrow> rat
     \<Rightarrow> string set \<Rightarrow> py_error + string set" where
  "filtered_alternative_gene_ids_of T denovo_tx gene_to_tx_ids unfiltered_transmap_dict min_distance
     alternative_gene_ids =
     (if \<exists>g \<in> alternative_gene_ids.
           isl (gene_overlap T denovo_tx gene_to_tx_ids unfiltered_transmap_dict g)
      then Inl KeyError
      else Inr (Set.filter
                  (\<lambda>g. case gene_overlap T denovo_tx gene_to_tx_ids unfiltered_transmap_dict g of
                          Inl e \<Rightarrow> False
                        | Inr ov \<Rightarrow> ov > min_distance)
                  alternative_gene_ids))"

text \<open>Lines 165 to 175 and 194 to 204: the row that is appended to \<^verbatim>\<open>r\<close>.\<close>

definition emit_record ::
  "tools \<Rightarrow> transcript \<Rightarrow> (string \<times> string list) list \<Rightarrow> tx_dict \<Rightarrow> rat
     \<Rightarrow> string set \<Rightarrow> string option \<times> resolution_method option \<Rightarrow> py_error + assignment" where
  "emit_record T denovo_tx gene_to_tx_ids unfiltered_transmap_dict min_distance pool_gene_ids decision =
     (let resolved_name = fst decision;
          resolution_method = snd decision;
          alternative_gene_ids =
            pool_gene_ids - (case resolved_name of None \<Rightarrow> {} | Some g \<Rightarrow> {g})
      in case filtered_alternative_gene_ids_of T denovo_tx gene_to_tx_ids unfiltered_transmap_dict
                min_distance alternative_gene_ids of
           Inl e \<Rightarrow> Inl e
         | Inr filtered_alternative_gene_ids \<Rightarrow>
             Inr \<lparr> TranscriptId = name denovo_tx,
                   AssignedGeneId = resolved_name,
                   AlternativeGeneIds =
                     (if card filtered_alternative_gene_ids > 0
                      then Some (py_join '','' (sorted_list_of_set filtered_alternative_gene_ids))
                      else None),
                   ResolutionMethod =
                     (if card filtered_alternative_gene_ids = 0 then None else resolution_method) \<rparr>)"

text \<open>Lines 178 to 191: the decision when the transcript has no exon conflicts.\<close>

definition decide_without_conflicts ::
  "tools \<Rightarrow> (transcript list \<Rightarrow> transcript list) \<Rightarrow> tx_dict \<Rightarrow> rat \<Rightarrow> rat
     \<Rightarrow> transcript list \<Rightarrow> (string \<times> string list) list \<Rightarrow> transcript
     \<Rightarrow> py_error + (string option \<times> resolution_method option)" where
  "decide_without_conflicts T enum unfiltered_transmap_dict min_distance tm_jaccard_distance
     filtered_txs gene_to_tx_ids denovo_tx =
     (let filtered_gene_ids = name2 ` set filtered_txs
      in if card filtered_gene_ids > 1 then
           resolve_pool T enum denovo_tx filtered_txs min_distance tm_jaccard_distance
         else if card filtered_gene_ids = 1 then
           single_gene_match T denovo_tx gene_to_tx_ids unfiltered_transmap_dict min_distance
             (the_elem filtered_gene_ids)
         else Inr (None, None))"

text \<open>Lines 127 to 163: the decision when the transcript has exon conflicts.\<close>

definition decide_with_conflicts ::
  "tools \<Rightarrow> (transcript list \<Rightarrow> transcript list) \<Rightarrow> tx_dict \<Rightarrow> rat \<Rightarrow> rat
     \<Rightarrow> transcript list \<Rightarrow> (string \<times> string list) list \<Rightarrow> transcript
     \<Rightarrow> string set \<Rightarrow> transcript list
     \<Rightarrow> py_error + (string option \<times> resolution_method option)" where
  "decide_with_conflicts T enum unfiltered_transmap_dict min_distance tm_jaccard_distance
     filtered_txs gene_to_tx_ids denovo_tx nonoverlapping_gene_ids refiltered_overlapping_tm_txs =
     (let filtered_gene_ids = name2 ` set filtered_txs;
          overlapping_gene_ids = filtered_gene_ids - nonoverlapping_gene_ids
      in if card overlapping_gene_ids = 0 then Inr (None, None)
         else if card filtered_gene_ids = 1 then
           single_gene_match T denovo_tx gene_to_tx_ids unfiltered_transmap_dict min_distance
             (the_elem filtered_gene_ids)
         else if card nonoverlapping_gene_ids > 0 then
           (if card overlapping_gene_ids > 1 then
              resolve_pool T enum denovo_tx refiltered_overlapping_tm_txs min_distance
                tm_jaccard_distance
            else
              single_gene_match T denovo_tx gene_to_tx_ids unfiltered_transmap_dict min_distance
                (the_elem overlapping_gene_ids))
         else if card overlapping_gene_ids > 1 then
           resolve_pool T enum denovo_tx filtered_txs min_distance tm_jaccard_distance
         else Inr (None, None))"

text \<open>Lines 98 to 175: the branch taken when the transcript has an \<^verbatim>\<open>exonConflicts\<close> value.\<close>

definition resolve_with_conflicts ::
  "tools \<Rightarrow> (transcript list \<Rightarrow> transcript list) \<Rightarrow> tx_dict \<Rightarrow> tx_dict \<Rightarrow> rat \<Rightarrow> rat
     \<Rightarrow> transcript list \<Rightarrow> (string \<rightharpoonup> string) \<Rightarrow> (string \<times> string list) list
     \<Rightarrow> transcript \<Rightarrow> string list \<Rightarrow> py_error + assignment" where
  "resolve_with_conflicts T enum filtered_transmap_dict unfiltered_transmap_dict min_distance
     tm_jaccard_distance filtered_txs tx_to_gene_ids gene_to_tx_ids denovo_tx exon_conflicts =
     (case scan_conflicts tx_to_gene_ids filtered_transmap_dict exon_conflicts ([], []) of
        Inl e \<Rightarrow> Inl e
      | Inr (nonoverlapping_genes, refiltered_nonoverlapping_tm_txs) \<Rightarrow>
          (let nonoverlapping_gene_ids = nonoverlapping_gene_ids_of gene_to_tx_ids nonoverlapping_genes;
               refiltered_overlapping_tm_txs =
                 filter (\<lambda>tx. tx \<notin> set refiltered_nonoverlapping_tm_txs) filtered_txs
           in case decide_with_conflicts T enum unfiltered_transmap_dict min_distance
                     tm_jaccard_distance filtered_txs gene_to_tx_ids denovo_tx
                     nonoverlapping_gene_ids refiltered_overlapping_tm_txs of
                Inl e \<Rightarrow> Inl e
              | Inr decision \<Rightarrow>
                  emit_record T denovo_tx gene_to_tx_ids unfiltered_transmap_dict min_distance
                    (name2 ` set refiltered_overlapping_tm_txs) decision))"

text \<open>Lines 177 to 204: the branch taken when it has none.\<close>

definition resolve_without_conflicts ::
  "tools \<Rightarrow> (transcript list \<Rightarrow> transcript list) \<Rightarrow> tx_dict \<Rightarrow> rat \<Rightarrow> rat
     \<Rightarrow> transcript list \<Rightarrow> transcript list \<Rightarrow> (string \<times> string list) list
     \<Rightarrow> transcript \<Rightarrow> py_error + assignment" where
  "resolve_without_conflicts T enum unfiltered_transmap_dict min_distance tm_jaccard_distance
     filtered_txs unfiltered_txs gene_to_tx_ids denovo_tx =
     (case decide_without_conflicts T enum unfiltered_transmap_dict min_distance
             tm_jaccard_distance filtered_txs gene_to_tx_ids denovo_tx of
        Inl e \<Rightarrow> Inl e
      | Inr decision \<Rightarrow>
          emit_record T denovo_tx gene_to_tx_ids unfiltered_transmap_dict min_distance
            (name2 ` set unfiltered_txs) decision)"

text \<open>Lines 89 to 204: the body of the loop over \<^verbatim>\<open>denovo_txs\<close>.\<close>

definition resolve_denovo_tx ::
  "tools \<Rightarrow> (transcript list \<Rightarrow> transcript list) \<Rightarrow> tx_dict \<Rightarrow> tx_dict \<Rightarrow> cluster_row list
     \<Rightarrow> rat \<Rightarrow> rat \<Rightarrow> transcript list \<Rightarrow> transcript list \<Rightarrow> transcript
     \<Rightarrow> py_error + assignment" where
  "resolve_denovo_tx T enum filtered_transmap_dict unfiltered_transmap_dict cluster_df
     min_distance tm_jaccard_distance filtered_txs unfiltered_txs denovo_tx =
     (let tx_to_gene_ids = tx_to_gene_ids_of (enum filtered_txs @ enum unfiltered_txs);
          gene_to_tx_ids = gene_to_tx_ids_of (enum filtered_txs @ enum unfiltered_txs)
      in case exon_conflict_field cluster_df (name denovo_tx) of
           Some c \<Rightarrow>
             resolve_with_conflicts T enum filtered_transmap_dict unfiltered_transmap_dict
               min_distance tm_jaccard_distance filtered_txs tx_to_gene_ids gene_to_tx_ids
               denovo_tx (parse_exon_conflicts c)
         | None \<Rightarrow>
             resolve_without_conflicts T enum unfiltered_transmap_dict min_distance
               tm_jaccard_distance filtered_txs unfiltered_txs gene_to_tx_ids denovo_tx)"

subsection \<open>\<^verbatim>\<open>assign_parents\<close>: the loops over clusters and transcripts\<close>

text \<open>A loop whose body can raise: the first exception ends it.\<close>

fun for_each :: "('a \<Rightarrow> py_error + 'b) \<Rightarrow> 'a list \<Rightarrow> py_error + 'b list" where
  "for_each f [] = Inr []"
| "for_each f (x # xs) =
     (case f x of
        Inl e \<Rightarrow> Inl e
      | Inr y \<Rightarrow> (case for_each f xs of Inl e \<Rightarrow> Inl e | Inr ys \<Rightarrow> Inr (y # ys)))"

text \<open>Lines 58 to 204: one group of \<^verbatim>\<open>cluster_df.groupby('#cluster')\<close>.\<close>

definition process_cluster ::
  "tools \<Rightarrow> (transcript list \<Rightarrow> transcript list) \<Rightarrow> tx_dict \<Rightarrow> tx_dict \<Rightarrow> tx_dict
     \<Rightarrow> cluster_row list \<Rightarrow> rat \<Rightarrow> rat \<Rightarrow> cluster_row list \<Rightarrow> py_error + assignment list" where
  "process_cluster T enum filtered_transmap_dict unfiltered_transmap_dict denovo_dict cluster_df
     min_distance tm_jaccard_distance d =
     (if \<not> list_ex (\<lambda>r. aln_id_is_denovo T (gene r)) d then Inr []
      else
        (case partition_cluster filtered_transmap_dict unfiltered_transmap_dict denovo_dict
                (map (\<lambda>r. (gene r, aln_id_is_denovo T (gene r))) d) ([], [], []) of
           Inl e \<Rightarrow> Inl e
         | Inr (unfiltered_txs, filtered_txs, denovo_txs) \<Rightarrow>
             for_each
               (resolve_denovo_tx T enum filtered_transmap_dict unfiltered_transmap_dict cluster_df
                  min_distance tm_jaccard_distance filtered_txs unfiltered_txs)
               (enum denovo_txs)))"

text \<open>\<^verbatim>\<open>cluster_df.groupby('#cluster')\<close>: the groups in the order of their keys, the rows
  of a group in the order of the table.\<close>

definition groupby_cluster :: "cluster_row list \<Rightarrow> cluster_row list list" where
  "groupby_cluster cluster_df =
     map (\<lambda>c. filter (\<lambda>r. cluster r = c) cluster_df) (sort (remdups (map cluster cluster_df)))"

text \<open>Lines 54 to 209, from the cluster table on. The result is the list of rows of the
  returned table; an exception is \<open>Inl\<close>.\<close>

definition assign_parents ::
  "tools \<Rightarrow> (transcript list \<Rightarrow> transcript list) \<Rightarrow> tx_dict \<Rightarrow> tx_dict \<Rightarrow> tx_dict
     \<Rightarrow> cluster_row list \<Rightarrow> rat \<Rightarrow> rat \<Rightarrow> py_error + assignment list" where
  "assign_parents T enum filtered_transmap_dict unfiltered_transmap_dict denovo_dict cluster_df
     min_distance tm_jaccard_distance =
     (case for_each
             (process_cluster T enum filtered_transmap_dict unfiltered_transmap_dict denovo_dict
                cluster_df min_distance tm_jaccard_distance)
             (groupby_cluster cluster_df) of
        Inl e \<Rightarrow> Inl e
      | Inr rs \<Rightarrow> Inr (concat rs))"

subsection \<open>An instance of the interval functions\<close>

text \<open>Modelled from the spec: \<^verbatim>\<open>tools.intervals\<close> is not in the source file. The
  specification has the asymmetric overlap of A and B be the fraction of the length of A
  that intersects B, the symmetric overlap be intersection length over union length, both
  0 in the degenerate case, on merged interval collections, and intervals be half-open.
  The quotient of the two lengths is a float.\<close>

definition interval_length :: "interval \<Rightarrow> int" where
  "interval_length a = max 0 (snd a - fst a)"

definition intersection_length :: "interval \<Rightarrow> interval \<Rightarrow> int" where
  "intersection_length a b = max 0 (min (snd a) (snd b) - max (fst a) (fst b))"

definition total_length :: "interval list \<Rightarrow> int" where
  "total_length A = sum_list (map interval_length A)"

definition shared_length :: "interval list \<Rightarrow> interval list \<Rightarrow> int" where
  "shared_length A B = sum_list (map (\<lambda>a. sum_list (map (intersection_length a) B)) A)"

definition format_ratio :: "int \<Rightarrow> int \<Rightarrow> rat" where
  "format_ratio n d = (if d = 0 then 0 else round_to_double (of_int n / of_int d))"

definition asymmetricOverlap :: "interval list \<Rightarrow> interval list \<Rightarrow> rat" where
  "asymmetricOverlap A B = format_ratio (shared_length A B) (total_length A)"

definition symmetricOverlap :: "interval list \<Rightarrow> interval list \<Rightarrow> rat" where
  "symmetricOverlap A B =
     format_ratio (shared_length A B) (total_length A + total_length B - shared_length A B)"

text \<open>Modelled from the spec: adjacent or overlapping intervals, and those no further
  apart than the gap tolerance, are coalesced.\<close>

fun gap_merge_sorted :: "nat \<Rightarrow> interval list \<Rightarrow> interval list" where
  "gap_merge_sorted gap [] = []"
| "gap_merge_sorted gap [a] = [a]"
| "gap_merge_sorted gap (a # b # rest) =
     (if fst b - snd a \<le> int gap
      then gap_merge_sorted gap ((fst a, max (snd a) (snd b)) # rest)
      else a # gap_merge_sorted gap (b # rest))"

definition mergedIntervals :: "interval set \<Rightarrow> nat \<Rightarrow> interval list" where
  "mergedIntervals S gap = gap_merge_sorted gap (sorted_list_of_set S)"

text \<open>The instance. For \<^verbatim>\<open>tools.nameConversions.aln_id_is_denovo\<close>, of which the
  specification says nothing, it takes the test of line 103 of the source.\<close>

definition spec_tools :: tools where
  "spec_tools =
     \<lparr> aln_id_is_denovo = is_denovo_conflict,
       calculate_bed12_asymmetric_jaccard = asymmetricOverlap,
       calculate_bed12_jaccard = symmetricOverlap,
       gap_merge_intervals = mergedIntervals \<rparr>"

subsection \<open>Notions used to state the properties\<close>

text \<open>The candidate transcripts of a gene, and the score of a gene: its best asymmetric
  overlap against the de novo transcript, the maximum over its transcripts.\<close>

definition gene_txs :: "transcript list \<Rightarrow> string \<Rightarrow> transcript list" where
  "gene_txs txs g = filter (\<lambda>tx. name2 tx = g) txs"

definition gene_score :: "tools \<Rightarrow> transcript \<Rightarrow> transcript list \<Rightarrow> string \<Rightarrow> rat" where
  "gene_score T denovo_tx txs g =
     Max (set (map (\<lambda>tx. calculate_bed12_asymmetric_jaccard T (exon_intervals denovo_tx)
                          (exon_intervals tx)) (gene_txs txs g)))"

definition score_table :: "tools \<Rightarrow> transcript \<Rightarrow> transcript list \<Rightarrow> (string \<times> rat) set" where
  "score_table T denovo_tx txs = (\<lambda>g. (g, gene_score T denovo_tx txs g)) ` name2 ` set txs"

definition top_items :: "(string \<times> rat) set \<Rightarrow> (string \<times> rat) set" where
  "top_items B = {p \<in> B. snd p = Max (snd ` B)}"

definition margin_ok :: "(string \<times> rat) set \<Rightarrow> rat \<Rightarrow> bool" where
  "margin_ok B md =
     (\<forall>p \<in> B. snd p \<noteq> Max (snd ` B) \<longrightarrow> md \<le> float_sub (Max (snd ` B)) (snd p))"

text \<open>Every pair of different candidate genes has footprints whose Jaccard value exceeds
  the threshold.\<close>

definition all_gene_pairs_exceed :: "tools \<Rightarrow> transcript list \<Rightarrow> rat \<Rightarrow> bool" where
  "all_gene_pairs_exceed T txs tm_jaccard_distance =
     (\<forall>g1 \<in> name2 ` set txs. \<forall>g2 \<in> name2 ` set txs. g1 \<noteq> g2 \<longrightarrow>
        find_highest_gene_jaccard T (gene_txs txs g1) (gene_txs txs g2) > tm_jaccard_distance)"

text \<open>Gene \<open>g\<close> alone attains the maximum score, and every other candidate gene is at
  least \<open>min_distance\<close> below it.\<close>

definition sole_best_by_margin :: "tools \<Rightarrow> transcript \<Rightarrow> transcript list \<Rightarrow> rat \<Rightarrow> string \<Rightarrow> bool" where
  "sole_best_by_margin T denovo_tx txs min_distance g =
     (g \<in> name2 ` set txs \<and>
      (\<forall>g' \<in> name2 ` set txs. g' \<noteq> g \<longrightarrow>
         gene_score T denovo_tx txs g' < gene_score T denovo_tx txs g \<and>
         min_distance \<le> gene_score T denovo_tx txs g - gene_score T denovo_tx txs g'))"

text \<open>Two different candidate genes attain the maximum score.\<close>

definition tied_maximum :: "tools \<Rightarrow> transcript \<Rightarrow> transcript list \<Rightarrow> bool" where
  "tied_maximum T denovo_tx txs =
     (\<exists>g1 \<in> name2 ` set txs. \<exists>g2 \<in> name2 ` set txs. g1 \<noteq> g2 \<and>
        gene_score T denovo_tx txs g1 = gene_score T denovo_tx txs g2 \<and>
        (\<forall>g \<in> name2 ` set txs. gene_score T denovo_tx txs g \<le> gene_score T denovo_tx txs g1))"

text \<open>The transcript identifier of a conflict entry, \<^verbatim>\<open>conflict.split(':')[1]\<close>.\<close>

definition conflict_tx_id :: "string \<Rightarrow> string option" where
  "conflict_tx_id conflict =
     (case split_on CHR '':'' conflict of _ # tx_conflict # _ \<Rightarrow> Some tx_conflict | _ \<Rightarrow> None)"

text \<open>Lines 106 to 125 as a function of the conflict list: the genes classified as
  nonoverlapping, for the reference transcripts \<open>txs\<close> of the cluster.\<close>

definition nonoverlapping_gene_ids_for ::
  "transcript list \<Rightarrow> tx_dict \<Rightarrow> string list \<Rightarrow> py_error + string set" where
  "nonoverlapping_gene_ids_for txs filtered_transmap_dict exon_conflicts =
     (case scan_conflicts (tx_to_gene_ids_of txs) filtered_transmap_dict exon_conflicts ([], []) of
        Inl e \<Rightarrow> Inl e
      | Inr (nonoverlapping_genes, refiltered_nonoverlapping_tm_txs) \<Rightarrow>
          Inr (nonoverlapping_gene_ids_of (gene_to_tx_ids_of txs) nonoverlapping_genes))"

text \<open>What the exon conflicts of a de novo transcript leave of the filtered set: \<open>None\<close>
  when the transcript has no \<^verbatim>\<open>exonConflicts\<close> value, otherwise
  \<^verbatim>\<open>nonoverlapping_gene_ids\<close> and \<^verbatim>\<open>refiltered_overlapping_tm_txs\<close> (lines 106 to 128).\<close>

definition exon_conflict_narrowing ::
  "(transcript list \<Rightarrow> transcript list) \<Rightarrow> tx_dict \<Rightarrow> cluster_row list
     \<Rightarrow> transcript list \<Rightarrow> transcript list \<Rightarrow> transcript
     \<Rightarrow> py_error + (string set \<times> transcript list) option" where
  "exon_conflict_narrowing enum filtered_transmap_dict cluster_df filtered_txs unfiltered_txs denovo_tx =
     (case exon_conflict_field cluster_df (name denovo_tx) of
        None \<Rightarrow> Inr None
      | Some c \<Rightarrow>
          (case scan_conflicts (tx_to_gene_ids_of (enum filtered_txs @ enum unfiltered_txs))
                  filtered_transmap_dict (parse_exon_conflicts c) ([], []) of
             Inl e \<Rightarrow> Inl e
           | Inr (nonoverlapping_genes, refiltered_nonoverlapping_tm_txs) \<Rightarrow>
               Inr (Some
                 (nonoverlapping_gene_ids_of
                    (gene_to_tx_ids_of (enum filtered_txs @ enum unfiltered_txs)) nonoverlapping_genes,
                  filter (\<lambda>tx. tx \<notin> set refiltered_nonoverlapping_tm_txs) filtered_txs))))"

text \<open>The candidate genes of a de novo transcript: \<^verbatim>\<open>filtered_gene_ids\<close> without exon
  conflicts, \<^verbatim>\<open>overlapping_gene_ids\<close> with them.\<close>

definition candidate_gene_ids ::
  "transcript list \<Rightarrow> (string set \<times> transcript list) option \<Rightarrow> string set" where
  "candidate_gene_ids filtered_txs nw =
     (case nw of
        None \<Rightarrow> name2 ` set filtered_txs
      | Some (nonoverlapping_gene_ids, refiltered) \<Rightarrow> name2 ` set filtered_txs - nonoverlapping_gene_ids)"

text \<open>The transcripts that are handed to \<^verbatim>\<open>resolve_multiple_genes\<close> when there are two
  candidate genes or more (lines 146, 160 and 179).\<close>

definition disambiguation_pool ::
  "transcript list \<Rightarrow> (string set \<times> transcript list) option \<Rightarrow> transcript list" where
  "disambiguation_pool filtered_txs nw =
     (case nw of
        None \<Rightarrow> filtered_txs
      | Some (nonoverlapping_gene_ids, refiltered) \<Rightarrow>
          if card nonoverlapping_gene_ids > 0 then refiltered else filtered_txs)"

text \<open>The genes that the loops of lines 167 and 196 run over, before the assigned gene is
  taken out: without exon conflicts the genes of \<^verbatim>\<open>unfiltered_overlapping_tm_txs\<close>, the
  reference transcripts of the cluster that the filtered dictionary lacks (line 194); with
  exon conflicts the genes of \<^verbatim>\<open>refiltered_overlapping_tm_txs\<close>, the filtered transcripts
  that the conflict list does not name (line 165).\<close>

definition iterated_alternative_genes ::
  "transcript list \<Rightarrow> (string set \<times> transcript list) option \<Rightarrow> string set" where
  "iterated_alternative_genes unfiltered_txs nw =
     (case nw of
        None \<Rightarrow> name2 ` set unfiltered_txs
      | Some (nonoverlapping_gene_ids, refiltered) \<Rightarrow> name2 ` set refiltered)"

text \<open>The pools in the words of the specification: with exon conflicts the candidate
  genes that they leave, without them all the reference genes of the cluster.\<close>

definition specified_alternative_pool ::
  "transcript list \<Rightarrow> transcript list \<Rightarrow> (string set \<times> transcript list) option \<Rightarrow> string set" where
  "specified_alternative_pool filtered_txs unfiltered_txs nw =
     (case nw of
        None \<Rightarrow> name2 ` set (filtered_txs @ unfiltered_txs)
      | Some (nonoverlapping_gene_ids, refiltered) \<Rightarrow> candidate_gene_ids filtered_txs nw)"

text \<open>The best asymmetric overlap of the de novo transcript against the reference
  transcripts \<open>txs\<close> of gene \<open>g\<close>: the maximum, over these transcripts, of the overlap with
  the body that the unfiltered dictionary has for the transcript.\<close>

definition best_asymmetric_overlap ::
  "tools \<Rightarrow> transcript \<Rightarrow> tx_dict \<Rightarrow> transcript list \<Rightarrow> string \<Rightarrow> rat" where
  "best_asymmetric_overlap T denovo_tx unfiltered_transmap_dict txs g =
     Max (set (map (\<lambda>tx. calculate_bed12_asymmetric_jaccard T (exon_intervals denovo_tx)
                          (exon_intervals (the (unfiltered_transmap_dict (name tx)))))
               (gene_txs txs g)))"

text \<open>The exponent of the doubles around a positive magnitude, and the double nearest to
  a positive magnitude.\<close>

definition double_exponent :: "rat \<Rightarrow> int" where
  "double_exponent a = max (floor_log2 a) (- 1022)"

definition round_magnitude :: "rat \<Rightarrow> rat" where
  "round_magnitude a = of_int (round_half_even (a / double_ulp a)) * double_ulp a"

text \<open>The relation between the fields of a row.\<close>

definition record_coherent :: "assignment \<Rightarrow> bool" where
  "record_coherent r =
     ((ResolutionMethod r \<noteq> None \<longrightarrow> AlternativeGeneIds r \<noteq> None) \<and>
      (ResolutionMethod r = Some rescued \<longrightarrow> AssignedGeneId r \<noteq> None) \<and>
      (ResolutionMethod r = Some badAnnotOrTm \<or> ResolutionMethod r = Some ambiguousOrFusion
         \<longrightarrow> AssignedGeneId r = None))"

text \<open>A transcript dictionary maps an identifier to the transcript of that identifier.\<close>

definition keyed_by_name :: "tx_dict \<Rightarrow> bool" where
  "keyed_by_name d = (\<forall>k tx. d k = Some tx \<longrightarrow> name tx = k)"

text \<open>The row of the cluster table has an identifier that its dictionary lacks.\<close>

definition missing_from_index :: "tools \<Rightarrow> tx_dict \<Rightarrow> tx_dict \<Rightarrow> tx_dict \<Rightarrow> cluster_row \<Rightarrow> bool" where
  "missing_from_index T filtered_transmap_dict unfiltered_transmap_dict denovo_dict row =
     (if aln_id_is_denovo T (gene row) then denovo_dict (gene row) = None
      else filtered_transmap_dict (gene row) = None \<and> unfiltered_transmap_dict (gene row) = None)"

text \<open>What lines 63 to 69 keep true of \<^verbatim>\<open>unfiltered_overlapping_tm_txs\<close> and
  \<^verbatim>\<open>filtered_overlapping_tm_txs\<close>.\<close>

definition partition_inv :: "tx_dict \<Rightarrow> tx_dict \<Rightarrow> transcript list \<Rightarrow> transcript list \<Rightarrow> bool" where
  "partition_inv fd ud U F =
     (distinct F \<and> distinct U \<and> (\<forall>t \<in> set F. fd (name t) = Some t)
      \<and> (\<forall>t \<in> set U. fd (name t) = None \<and> ud (name t) = Some t))"

text \<open>Two runs agree: both raise, or both return the same rows up to their order.\<close>

definition same_records :: "py_error + assignment list \<Rightarrow> py_error + assignment list \<Rightarrow> bool" where
  "same_records a b =
     (case a of
        Inl e \<Rightarrow> isl b
      | Inr rs \<Rightarrow> (case b of Inl e \<Rightarrow> False | Inr rs' \<Rightarrow> mset rs = mset rs'))"

text \<open>The transcript identifiers that a conflict list names, in its order.\<close>

definition conflict_tx_ids :: "string list \<Rightarrow> string list" where
  "conflict_tx_ids exon_conflicts = List.map_filter conflict_tx_id exon_conflicts"

text \<open>The genes that the alternative genes are taken from, in terms of the inputs:
  without exon conflicts the genes of the reference transcripts of the cluster that the
  filtered dictionary lacks; with exon conflicts the genes of the filtered transcripts of
  the cluster that the conflict list does not name.\<close>

definition alternative_source_genes ::
  "cluster_row list \<Rightarrow> transcript list \<Rightarrow> transcript list \<Rightarrow> transcript \<Rightarrow> string set" where
  "alternative_source_genes cluster_df filtered_txs unfiltered_txs denovo_tx =
     (case exon_conflict_field cluster_df (name denovo_tx) of
        None \<Rightarrow> name2 ` set unfiltered_txs
      | Some c \<Rightarrow>
          name2 ` set (filter (\<lambda>tx. name tx \<notin> set (conflict_tx_ids (parse_exon_conflicts c)))
                         filtered_txs))"

text \<open>The genes of a pool, other than the assigned gene, whose best asymmetric overlap
  against the de novo transcript exceeds \<^verbatim>\<open>min_distance\<close>.\<close>

definition alternatives_by_overlap ::
  "tools \<Rightarrow> transcript \<Rightarrow> tx_dict \<Rightarrow> transcript list \<Rightarrow> rat
     \<Rightarrow> string set \<Rightarrow> string option \<Rightarrow> string set" where
  "alternatives_by_overlap T denovo_tx unfiltered_transmap_dict txs min_distance pool assigned =
     {g \<in> pool. Some g \<noteq> assigned
        \<and> best_asymmetric_overlap T denovo_tx unfiltered_transmap_dict txs g > min_distance}"

text \<open>The conflict entry names a reference transcript of the cluster, that is, a key of
  \<^verbatim>\<open>tx_to_gene_ids\<close> (line 115).\<close>

definition names_cluster_reference :: "(string \<rightharpoonup> string) \<Rightarrow> string \<Rightarrow> bool" where
  "names_cluster_reference tx_to_gene_ids conflict =
     (case conflict_tx_id conflict of
        None \<Rightarrow> False
      | Some tx_conflict \<Rightarrow> tx_to_gene_ids tx_conflict \<noteq> None)"

text \<open>The relation between the two components of a decision.\<close>

definition decision_coherent :: "string option \<times> resolution_method option \<Rightarrow> bool" where
  "decision_coherent d =
     ((snd d = Some rescued \<longrightarrow> fst d \<noteq> None) \<and>
      (snd d = Some badAnnotOrTm \<or> snd d = Some ambiguousOrFusion \<longrightarrow> fst d = None))"

text \<open>The genes of a pool, other than the assigned gene, for which
  \<^verbatim>\<open>calculate_tx_overlap\<close> returns more than \<^verbatim>\<open>min_distance\<close>.\<close>

definition passing_alternatives ::
  "tools \<Rightarrow> transcript \<Rightarrow> (string \<times> string list) list \<Rightarrow> tx_dict \<Rightarrow> rat
     \<Rightarrow> string set \<Rightarrow> string option \<Rightarrow> string set" where
  "passing_alternatives T denovo_tx gene_to_tx_ids unfiltered_transmap_dict min_distance pool assigned =
     {g \<in> pool. Some g \<noteq> assigned \<and>
        (\<exists>ov. gene_overlap T denovo_tx gene_to_tx_ids unfiltered_transmap_dict g = Inr ov
               \<and> ov > min_distance)}"

text \<open>The decision of lines 127 to 163 or of lines 178 to 191, by what the exon conflicts
  left.\<close>

definition primary_decision ::
  "tools \<Rightarrow> (transcript list \<Rightarrow> transcript list) \<Rightarrow> tx_dict \<Rightarrow> rat \<Rightarrow> rat
     \<Rightarrow> transcript list \<Rightarrow> (string \<times> string list) list \<Rightarrow> transcript
     \<Rightarrow> (string set \<times> transcript list) option
     \<Rightarrow> py_error + (string option \<times> resolution_method option)" where
  "primary_decision T enum unfiltered_transmap_dict min_distance tm_jaccard_distance
     filtered_txs gene_to_tx_ids denovo_tx nw =
     (case nw of
        None \<Rightarrow>
          decide_without_conflicts T enum unfiltered_transmap_dict min_distance tm_jaccard_distance
            filtered_txs gene_to_tx_ids denovo_tx
      | Some (nonoverlapping_gene_ids, refiltered) \<Rightarrow>
          decide_with_conflicts T enum unfiltered_transmap_dict min_distance tm_jaccard_distance
            filtered_txs gene_to_tx_ids denovo_tx nonoverlapping_gene_ids refiltered)"

subsection \<open>Example inputs\<close>

definition ex_txA :: transcript where
  "ex_txA = \<lparr> name = ''A1'', name2 = ''A'', exon_intervals = [(0, 100)] \<rparr>"

definition ex_txA2 :: transcript where
  "ex_txA2 = \<lparr> name = ''A2'', name2 = ''A'', exon_intervals = [(0, 40), (60, 100)] \<rparr>"

definition ex_txB :: transcript where
  "ex_txB = \<lparr> name = ''B1'', name2 = ''B'', exon_intervals = [(50, 100)] \<rparr>"

definition ex_txC :: transcript where
  "ex_txC = \<lparr> name = ''C1'', name2 = ''C'', exon_intervals = [(200, 300)] \<rparr>"

definition ex_denovo :: transcript where
  "ex_denovo = \<lparr> name = ''augPB-1'', name2 = ''augPB-1'', exon_intervals = [(0, 50)] \<rparr>"

definition ex_denovo_tie :: transcript where
  "ex_denovo_tie = \<lparr> name = ''augPB-2'', name2 = ''augPB-2'', exon_intervals = [(50, 100), (200, 250)] \<rparr>"

definition ex_denovo_shared :: transcript where
  "ex_denovo_shared = \<lparr> name = ''augPB-3'', name2 = ''augPB-3'', exon_intervals = [(50, 100)] \<rparr>"

definition ex_denovo_full :: transcript where
  "ex_denovo_full = \<lparr> name = ''augPB-4'', name2 = ''augPB-4'', exon_intervals = [(0, 100)] \<rparr>"

definition ex_txD :: transcript where
  "ex_txD = \<lparr> name = ''D1'', name2 = ''D'', exon_intervals = [(0, 60)] \<rparr>"

text \<open>Transcript dictionaries: an unfiltered one and two filtered ones.\<close>

definition ex_unfiltered_dict :: tx_dict where
  "ex_unfiltered_dict =
     map_of [(''A1'', ex_txA), (''A2'', ex_txA2), (''B1'', ex_txB), (''C1'', ex_txC), (''D1'', ex_txD)]"

definition ex_filtered_AB :: tx_dict where
  "ex_filtered_AB = map_of [(''A1'', ex_txA), (''B1'', ex_txB)]"

definition ex_filtered_AC :: tx_dict where
  "ex_filtered_AC = map_of [(''A1'', ex_txA), (''C1'', ex_txC)]"

definition ex_denovo_dict :: tx_dict where
  "ex_denovo_dict =
     map_of [(''augPB-1'', ex_denovo), (''augPB-2'', ex_denovo_tie), (''augPB-3'', ex_denovo_shared),
             (''augPB-4'', ex_denovo_full)]"

text \<open>Cluster tables.\<close>

definition ex_rows_AB :: "cluster_row list" where
  "ex_rows_AB =
     [\<lparr> cluster = 1, gene = ''A1'', exonConflicts = None \<rparr>,
      \<lparr> cluster = 1, gene = ''B1'', exonConflicts = None \<rparr>,
      \<lparr> cluster = 1, gene = ''augPB-1'', exonConflicts = None \<rparr>]"

definition ex_rows_ACB :: "cluster_row list" where
  "ex_rows_ACB =
     [\<lparr> cluster = 1, gene = ''A1'', exonConflicts = None \<rparr>,
      \<lparr> cluster = 1, gene = ''C1'', exonConflicts = None \<rparr>,
      \<lparr> cluster = 1, gene = ''B1'', exonConflicts = None \<rparr>,
      \<lparr> cluster = 1, gene = ''augPB-4'', exonConflicts = None \<rparr>]"


definition ex_filtered_A12 :: tx_dict where
  "ex_filtered_A12 = map_of [(''A1'', ex_txA), (''A2'', ex_txA2)]"

definition ex_orphan_row :: cluster_row where
  "ex_orphan_row = \<lparr> cluster = 2, gene = ''X9'', exonConflicts = None \<rparr>"

definition ex_missing_row :: cluster_row where
  "ex_missing_row = \<lparr> cluster = 1, gene = ''X9'', exonConflicts = None \<rparr>"

text \<open>The float 0.4, the default of \<^verbatim>\<open>min_distance\<close>; the default 0.25 of
  \<^verbatim>\<open>tm_jaccard_distance\<close> is the rational 1/4.\<close>

definition ex_min_distance :: rat where
  "ex_min_distance = round_to_double (2 / 5)"

text \<open>A cluster in which the conflict list of the de novo transcript names the filtered
  transcript of gene Q and not its unfiltered one.\<close>

definition ex_txP :: transcript where
  "ex_txP = \<lparr> name = ''P1'', name2 = ''P'', exon_intervals = [(0, 60)] \<rparr>"

definition ex_txQ :: transcript where
  "ex_txQ = \<lparr> name = ''Q1'', name2 = ''Q'', exon_intervals = [(40, 100)] \<rparr>"

definition ex_txQ2 :: transcript where
  "ex_txQ2 = \<lparr> name = ''Q2'', name2 = ''Q'', exon_intervals = [(40, 90)] \<rparr>"

definition ex_filtered_PQ :: tx_dict where
  "ex_filtered_PQ = map_of [(''P1'', ex_txP), (''Q1'', ex_txQ)]"

definition ex_unfiltered_PQ :: tx_dict where
  "ex_unfiltered_PQ = map_of [(''P1'', ex_txP), (''Q1'', ex_txQ), (''Q2'', ex_txQ2)]"

definition ex_rows_PQ :: "cluster_row list" where
  "ex_rows_PQ =
     [\<lparr> cluster = 1, gene = ''P1'', exonConflicts = None \<rparr>,
      \<lparr> cluster = 1, gene = ''Q1'', exonConflicts = None \<rparr>,
      \<lparr> cluster = 1, gene = ''Q2'', exonConflicts = None \<rparr>,
      \<lparr> cluster = 1, gene = ''augPB-4'', exonConflicts = Some ''tm.gp:Q1,'' \<rparr>]"

text \<open>Genes whose scores are the floats 0.7 and 0.3, and genes whose scores are the floats
  0.5 and 0.1, against a de novo transcript of length 10.\<close>

definition ex_txR :: transcript where
  "ex_txR = \<lparr> name = ''R1'', name2 = ''R'', exon_intervals = [(0, 7)] \<rparr>"

definition ex_txS :: transcript where
  "ex_txS = \<lparr> name = ''S1'', name2 = ''S'', exon_intervals = [(7, 10)] \<rparr>"

definition ex_denovo_ten :: transcript where
  "ex_denovo_ten = \<lparr> name = ''augPB-5'', name2 = ''augPB-5'', exon_intervals = [(0, 10)] \<rparr>"

definition ex_txV :: transcript where
  "ex_txV = \<lparr> name = ''V1'', name2 = ''V'', exon_intervals = [(0, 5)] \<rparr>"

definition ex_txW :: transcript where
  "ex_txW = \<lparr> name = ''W1'', name2 = ''W'', exon_intervals = [(5, 6)] \<rparr>"

section \<open>Properties of the building blocks\<close>

subsection \<open>Dictionaries and the overlap loop\<close>

lemma map_of_dict_append:
  "map_of (dict_append d k v) k' =
     (if k' = k then Some ((case map_of d k of None \<Rightarrow> [] | Some vs \<Rightarrow> vs) @ [v]) else map_of d k')"
  by (simp add: dict_append_def update_conv' split: option.splits)

lemma keys_dict_append: "fst ` set (dict_append d k v) = insert k (fst ` set d)"
  by (simp add: dict_append_def AList.dom_update split: option.splits)

lemma distinct_dict_append: "distinct (map fst d) \<Longrightarrow> distinct (map fst (dict_append d k v))"
  by (simp add: dict_append_def AList.distinct_update split: option.splits)

lemma map_of_fold_dict_append:
  "map_of (fold (\<lambda>x d. dict_append d (k x) (v x)) xs d0) key =
     (if filter (\<lambda>x. k x = key) xs = [] then map_of d0 key
      else Some ((case map_of d0 key of None \<Rightarrow> [] | Some vs \<Rightarrow> vs) @ map v (filter (\<lambda>x. k x = key) xs)))"
proof (induction xs arbitrary: d0)
  case Nil
  then show ?case by simp
next
  case (Cons x xs)
  show ?case
    by (simp add: Cons.IH map_of_dict_append)
qed

lemma keys_fold_dict_append:
  "fst ` set (fold (\<lambda>x d. dict_append d (k x) (v x)) xs d0) = fst ` set d0 \<union> k ` set xs"
  by (induction xs arbitrary: d0) (auto simp: keys_dict_append)

lemma distinct_fold_dict_append:
  "distinct (map fst d0) \<Longrightarrow> distinct (map fst (fold (\<lambda>x d. dict_append d (k x) (v x)) xs d0))"
  by (induction xs arbitrary: d0) (auto simp: distinct_dict_append)

lemma Max_insert_max:
  fixes b :: "'a::linorder"
  assumes "finite S"
  shows "Max (insert (max b x) S) = Max (insert b (insert x S))"
  using assms by (cases "S = {}") (simp_all add: max.assoc)

lemma tx_overlap_loop_eq:
  "tx_overlap_loop T tx l d b =
     (if \<forall>n \<in> set l. d n \<noteq> None
      then Inr (Max (insert b ((\<lambda>n. calculate_bed12_asymmetric_jaccard T (exon_intervals tx)
                                   (exon_intervals (the (d n)))) ` set l)))
      else Inl KeyError)"
proof (induction l arbitrary: b)
  case Nil
  then show ?case by simp
next
  case (Cons n l)
  let ?f = "\<lambda>n. calculate_bed12_asymmetric_jaccard T (exon_intervals tx) (exon_intervals (the (d n)))"
  show ?case
  proof (cases "d n")
    case None
    then show ?thesis by auto
  next
    case (Some tx2)
    have step: "tx_overlap_loop T tx (n # l) d b = tx_overlap_loop T tx l d (max b (?f n))"
      using Some by (simp add: Let_def max_def)
    have mx: "Max (insert (max b (?f n)) (?f ` set l)) = Max (insert b (?f ` set (n # l)))"
      using Max_insert_max [of "?f ` set l" b "?f n"] by simp
    have all: "(\<forall>m \<in> set (n # l). d m \<noteq> None) = (\<forall>m \<in> set l. d m \<noteq> None)"
      using Some by simp
    show ?thesis
      unfolding step Cons.IH [of "max b (?f n)"] mx all ..
  qed
qed

lemma calculate_tx_overlap_eq:
  "calculate_tx_overlap T tx l d =
     (if \<forall>n \<in> set l. d n \<noteq> None
      then Inr (Max (insert 0 ((\<lambda>n. calculate_bed12_asymmetric_jaccard T (exon_intervals tx)
                                   (exon_intervals (the (d n)))) ` set l)))
      else Inl KeyError)"
  by (simp only: calculate_tx_overlap_def tx_overlap_loop_eq)

lemma calculate_tx_overlap_cong_set:
  "set l = set l' \<Longrightarrow> calculate_tx_overlap T tx l d = calculate_tx_overlap T tx l' d"
  by (simp only: calculate_tx_overlap_eq)

subsection \<open>Rounding to a double keeps the bounds that are doubles\<close>

lemma bitlen_powi_bounds:
  assumes "(x :: int) > 0"
  shows "(2 :: rat) powi (bitlen x - 1) \<le> of_int x" and "of_int x < (2 :: rat) powi (bitlen x)"
proof -
  have b1: "bitlen x \<ge> 1" using assms by (auto simp: bitlen_alt_def)
  have lo: "2 ^ nat (bitlen x - 1) \<le> x" and hi: "x < 2 ^ nat (bitlen x)"
    using bitlen_bounds [OF assms] by simp_all
  have "(of_int (2 ^ nat (bitlen x - 1)) :: rat) \<le> of_int x" using lo by (simp only: of_int_le_iff)
  then show "(2 :: rat) powi (bitlen x - 1) \<le> of_int x"
    using b1 by (simp add: power_int_def)
  have "(of_int x :: rat) < of_int (2 ^ nat (bitlen x))" using hi by (simp only: of_int_less_iff)
  then show "of_int x < (2 :: rat) powi (bitlen x)"
    using b1 by (simp add: power_int_def)
qed

lemma floor_log2_bounds:
  assumes "a > 0"
  shows "2 powi (floor_log2 a) \<le> a" and "a < 2 powi (floor_log2 a + 1)"
proof -
  obtain p n where pn: "quotient_of a = (p, n)" by (cases "quotient_of a")
  have n: "n > 0" using pn by (rule quotient_of_denom_pos)
  have a: "a = of_int p / of_int n" using pn by (simp add: quotient_of_div)
  have p: "p > 0" using assms n a by (simp add: zero_less_divide_iff)
  let ?e0 = "bitlen p - bitlen n"
  note bp = bitlen_powi_bounds [OF p]
  note bn = bitlen_powi_bounds [OF n]
  have npos: "(of_int n :: rat) > 0" using n by simp
  have ppos: "(of_int p :: rat) > 0" using p by simp
  have up: "a < 2 powi (?e0 + 1)"
  proof -
    have "a < 2 powi (bitlen p) / of_int n"
      unfolding a using bp(2) npos by (simp add: divide_strict_right_mono)
    also have "\<dots> \<le> 2 powi (bitlen p) / 2 powi (bitlen n - 1)"
      using bn(1) npos by (intro divide_left_mono mult_pos_pos) simp_all
    also have "\<dots> = 2 powi (bitlen p - (bitlen n - 1))"
      by (simp add: power_int_diff)
    finally show ?thesis by (simp add: algebra_simps)
  qed
  have lo: "2 powi (?e0 - 1) < a"
  proof -
    have "2 powi (?e0 - 1) = 2 powi ((bitlen p - 1) - bitlen n)" by (simp add: algebra_simps)
    also have "\<dots> = 2 powi (bitlen p - 1) / (2 :: rat) powi (bitlen n)"
      by (simp add: power_int_diff)
    also have "\<dots> < 2 powi (bitlen p - 1) / of_int n"
      using bn(2) npos by (intro divide_strict_left_mono mult_pos_pos) simp_all
    also have "\<dots> \<le> a"
      unfolding a using bp(1) npos by (simp add: divide_right_mono)
    finally show ?thesis .
  qed
  have fl: "floor_log2 a = (if 2 powi ?e0 \<le> a then ?e0 else ?e0 - 1)"
    by (simp add: floor_log2_def pn Let_def)
  show "2 powi (floor_log2 a) \<le> a" using lo by (simp add: fl)
  show "a < 2 powi (floor_log2 a + 1)" using up by (auto simp: fl not_le)
qed

lemma floor_log2_mono:
  assumes "0 < a" "a \<le> b"
  shows "floor_log2 a \<le> floor_log2 b"
proof (rule ccontr)
  assume "\<not> floor_log2 a \<le> floor_log2 b"
  then have "floor_log2 b + 1 \<le> floor_log2 a" by simp
  then have "(2 :: rat) powi (floor_log2 b + 1) \<le> 2 powi (floor_log2 a)"
    by (intro power_int_increasing) simp_all
  also have "\<dots> \<le> a" using assms(1) by (rule floor_log2_bounds)
  finally have "2 powi (floor_log2 b + 1) \<le> b" using assms(2) by simp
  moreover have "b < 2 powi (floor_log2 b + 1)" using assms by (intro floor_log2_bounds) simp
  ultimately show False by simp
qed

lemma round_half_even_bounds: "\<lfloor>m\<rfloor> \<le> round_half_even m" "round_half_even m \<le> \<lceil>m\<rceil>"
proof -
  show "\<lfloor>m\<rfloor> \<le> round_half_even m" by (simp add: round_half_even_def Let_def)
  have "m - of_int \<lfloor>m\<rfloor> \<ge> 1 / 2 \<Longrightarrow> \<lfloor>m\<rfloor> + 1 \<le> \<lceil>m\<rceil>"
  proof -
    assume "m - of_int \<lfloor>m\<rfloor> \<ge> 1 / 2"
    then have "of_int \<lfloor>m\<rfloor> < m" by simp
    then show ?thesis by (simp add: ceiling_altdef)
  qed
  then show "round_half_even m \<le> \<lceil>m\<rceil>"
    by (auto simp: round_half_even_def Let_def not_less intro: order_trans [OF floor_le_ceiling])
qed

lemma double_ulp_eq: "double_ulp a = 2 powi (double_exponent a - 52)"
  by (simp add: double_ulp_def double_exponent_def)

lemma double_ulp_pos: "0 < double_ulp a"
  by (simp add: double_ulp_def)

lemma double_exponent_mono: "0 < a \<Longrightarrow> a \<le> b \<Longrightarrow> double_exponent a \<le> double_exponent b"
  using floor_log2_mono [of a b] by (simp add: double_exponent_def max.coboundedI1)

lemma round_to_double_cases:
  "round_to_double q =
     (if q = 0 then 0 else if q > 0 then round_magnitude q else - round_magnitude (- q))"
  by (simp add: round_to_double_def round_magnitude_def sgn_if)

lemma round_magnitude_nonneg: "0 < a \<Longrightarrow> 0 \<le> round_magnitude a"
proof -
  assume "0 < a"
  then have "0 \<le> a / double_ulp a" using double_ulp_pos [of a] by simp
  then have "0 \<le> \<lfloor>a / double_ulp a\<rfloor>" by simp
  then have "0 \<le> round_half_even (a / double_ulp a)"
    using round_half_even_bounds(1) [of "a / double_ulp a"] by linarith
  then show ?thesis using double_ulp_pos [of a] by (simp add: round_magnitude_def)
qed

lemma round_magnitude_lower:
  assumes "0 < a" "double_exponent a > - 1022"
  shows "2 powi (double_exponent a) \<le> round_magnitude a"
proof -
  let ?e = "double_exponent a"
  let ?u = "double_ulp a"
  have fl: "floor_log2 a = ?e" using assms(2) by (auto simp: double_exponent_def max_def split: if_splits)
  have "2 powi ?e \<le> a" using floor_log2_bounds(1) [OF assms(1)] fl by simp
  then have "2 powi ?e / ?u \<le> a / ?u" using double_ulp_pos [of a] by (simp add: divide_right_mono)
  moreover have "2 powi ?e / ?u = (2 :: rat) powi 52"
    unfolding double_ulp_eq by (simp flip: power_int_diff)
  ultimately have "of_int (2 ^ 52) \<le> a / ?u" by simp
  then have "2 ^ 52 \<le> \<lfloor>a / ?u\<rfloor>" by (simp only: le_floor_iff)
  then have "2 ^ 52 \<le> round_half_even (a / ?u)"
    using round_half_even_bounds(1) [of "a / ?u"] by linarith
  then have "(of_int (2 ^ 52) :: rat) \<le> of_int (round_half_even (a / ?u))"
    by (simp only: of_int_le_iff)
  then have "of_int (2 ^ 52) * ?u \<le> round_magnitude a"
    unfolding round_magnitude_def using double_ulp_pos [of a] by (simp only: mult_le_cancel_right_pos)
  moreover have "of_int (2 ^ 52) * ?u = (2 :: rat) powi ?e"
  proof -
    have "?e = 52 + (?e - 52)" by simp
    then have "(2 :: rat) powi ?e = 2 powi (52 + (?e - 52))" by (rule arg_cong)
    also have "\<dots> = 2 powi 52 * 2 powi (?e - 52)" by (subst power_int_add) simp_all
    finally show ?thesis by (simp add: double_ulp_eq)
  qed
  ultimately show ?thesis by simp
qed

lemma round_magnitude_upper:
  assumes "0 < a"
  shows "round_magnitude a \<le> 2 powi (double_exponent a + 1)"
proof -
  let ?e = "double_exponent a"
  let ?u = "double_ulp a"
  have "floor_log2 a \<le> ?e" by (simp add: double_exponent_def)
  then have "(2 :: rat) powi (floor_log2 a + 1) \<le> 2 powi (?e + 1)"
    by (intro power_int_increasing) simp_all
  then have "a \<le> 2 powi (?e + 1)" using floor_log2_bounds(2) [OF assms] by simp
  then have "a / ?u \<le> 2 powi (?e + 1) / ?u" using double_ulp_pos [of a] by (simp add: divide_right_mono)
  moreover have "2 powi (?e + 1) / ?u = (2 :: rat) powi 53"
    unfolding double_ulp_eq by (simp flip: power_int_diff)
  ultimately have "a / ?u \<le> of_int (2 ^ 53)" by simp
  then have "\<lceil>a / ?u\<rceil> \<le> 2 ^ 53" by (simp only: ceiling_le_iff)
  then have "round_half_even (a / ?u) \<le> 2 ^ 53"
    using round_half_even_bounds(2) [of "a / ?u"] by linarith
  then have "(of_int (round_half_even (a / ?u)) :: rat) \<le> of_int (2 ^ 53)"
    by (simp only: of_int_le_iff)
  then have "round_magnitude a \<le> of_int (2 ^ 53) * ?u"
    unfolding round_magnitude_def using double_ulp_pos [of a] by (simp only: mult_le_cancel_right_pos)
  moreover have "of_int (2 ^ 53) * ?u = (2 :: rat) powi (?e + 1)"
  proof -
    have "?e + 1 = 53 + (?e - 52)" by simp
    then have "(2 :: rat) powi (?e + 1) = 2 powi (53 + (?e - 52))" by (rule arg_cong)
    also have "\<dots> = 2 powi 53 * 2 powi (?e - 52)" by (subst power_int_add) simp_all
    finally show ?thesis by (simp add: double_ulp_eq)
  qed
  ultimately show ?thesis by simp
qed

lemma round_magnitude_above_double:
  assumes d: "0 < d" "round_magnitude d = d" and le: "d \<le> a"
  shows "d \<le> round_magnitude a"
proof -
  have a: "0 < a" using d(1) le by simp
  have e: "double_exponent d \<le> double_exponent a" using d(1) le by (rule double_exponent_mono)
  show ?thesis
  proof (cases "double_exponent d = double_exponent a")
    case True
    then have u: "double_ulp d = double_ulp a" by (simp add: double_ulp_eq)
    let ?u = "double_ulp a"
    let ?k = "round_half_even (d / ?u)"
    have dk: "d = of_int ?k * ?u" using d(2) by (simp add: round_magnitude_def u)
    have "d / ?u \<le> a / ?u" using le double_ulp_pos [of a] by (simp add: divide_right_mono)
    moreover have "d / ?u = of_int ?k" using dk double_ulp_pos [of a] by (simp add: field_simps)
    ultimately have "of_int ?k \<le> a / ?u" by simp
    then have "?k \<le> \<lfloor>a / ?u\<rfloor>" by (simp only: le_floor_iff)
    then have "?k \<le> round_half_even (a / ?u)"
      using round_half_even_bounds(1) [of "a / ?u"] by linarith
    then have "(of_int ?k :: rat) \<le> of_int (round_half_even (a / ?u))" by (simp only: of_int_le_iff)
    then have "of_int ?k * ?u \<le> round_magnitude a"
      unfolding round_magnitude_def using double_ulp_pos [of a] by (simp only: mult_le_cancel_right_pos)
    then show ?thesis using dk by simp
  next
    case False
    then have lt: "double_exponent d + 1 \<le> double_exponent a" using e by simp
    then have "double_exponent a > - 1022" by (simp add: double_exponent_def)
    from round_magnitude_lower [OF a this]
    have "2 powi (double_exponent a) \<le> round_magnitude a" .
    moreover have "(2 :: rat) powi (double_exponent d + 1) \<le> 2 powi (double_exponent a)"
      using lt by (intro power_int_increasing) simp_all
    moreover have "d \<le> 2 powi (double_exponent d + 1)"
      using round_magnitude_upper [OF d(1)] d(2) by simp
    ultimately show ?thesis by simp
  qed
qed

lemma round_magnitude_below_double:
  assumes a: "0 < a" and D: "round_magnitude D = D" and le: "a \<le> D"
  shows "round_magnitude a \<le> D"
proof -
  have Dpos: "0 < D" using a le by simp
  have e: "double_exponent a \<le> double_exponent D" using a le by (rule double_exponent_mono)
  show ?thesis
  proof (cases "double_exponent a = double_exponent D")
    case True
    then have u: "double_ulp D = double_ulp a" by (simp add: double_ulp_eq)
    let ?u = "double_ulp a"
    let ?k = "round_half_even (D / ?u)"
    have dk: "D = of_int ?k * ?u" using D by (simp add: round_magnitude_def u)
    have "a / ?u \<le> D / ?u" using le double_ulp_pos [of a] by (simp add: divide_right_mono)
    moreover have "D / ?u = of_int ?k" using dk double_ulp_pos [of a] by (simp add: field_simps)
    ultimately have "a / ?u \<le> of_int ?k" by simp
    then have "\<lceil>a / ?u\<rceil> \<le> ?k" by (simp only: ceiling_le_iff)
    then have "round_half_even (a / ?u) \<le> ?k"
      using round_half_even_bounds(2) [of "a / ?u"] by linarith
    then have "(of_int (round_half_even (a / ?u)) :: rat) \<le> of_int ?k" by (simp only: of_int_le_iff)
    then have "round_magnitude a \<le> of_int ?k * ?u"
      unfolding round_magnitude_def using double_ulp_pos [of a] by (simp only: mult_le_cancel_right_pos)
    then show ?thesis using dk by simp
  next
    case False
    then have lt: "double_exponent a + 1 \<le> double_exponent D" using e by simp
    then have "double_exponent D > - 1022" by (simp add: double_exponent_def)
    from round_magnitude_lower [OF Dpos this] D
    have "2 powi (double_exponent D) \<le> D" by simp
    moreover have "(2 :: rat) powi (double_exponent a + 1) \<le> 2 powi (double_exponent D)"
      using lt by (intro power_int_increasing) simp_all
    moreover have "round_magnitude a \<le> 2 powi (double_exponent a + 1)"
      using a by (rule round_magnitude_upper)
    ultimately show ?thesis by simp
  qed
qed

lemma round_to_double_above_double:
  assumes "round_to_double d = d" and "d \<le> q"
  shows "d \<le> round_to_double q"
proof -
  consider "q = 0" | "0 < q" | "q < 0" by linarith
  then show ?thesis
  proof cases
    case 1
    then show ?thesis using assms(2) by (simp add: round_to_double_cases)
  next
    case 2
    show ?thesis
    proof (cases "0 < d")
      case True
      then have "round_magnitude d = d" using assms(1) by (simp add: round_to_double_cases)
      from round_magnitude_above_double [OF True this assms(2)]
      show ?thesis using 2 by (simp add: round_to_double_cases)
    next
      case False
      then show ?thesis using 2 round_magnitude_nonneg [OF 2] by (simp add: round_to_double_cases)
    qed
  next
    case 3
    then have d: "d < 0" using assms(2) by simp
    then have "round_magnitude (- d) = - d" using assms(1) by (simp add: round_to_double_cases)
    moreover have "0 < - q" "- q \<le> - d" using 3 assms(2) by simp_all
    ultimately have "round_magnitude (- q) \<le> - d" by (intro round_magnitude_below_double)
    then show ?thesis using 3 by (simp add: round_to_double_cases)
  qed
qed

lemma float_sub_margin:
  assumes "round_to_double min_distance = min_distance" and "min_distance \<le> high_score - x"
  shows "min_distance \<le> float_sub high_score x"
  unfolding float_sub_def using assms by (rule round_to_double_above_double)

subsection \<open>Maxima and the stable sort\<close>

lemma py_max_eq: "xs \<noteq> [] \<Longrightarrow> py_max xs = Inr (Max (set xs))"
proof -
  assume "xs \<noteq> []"
  then obtain x ys where xs: "xs = x # ys" by (cases xs) auto
  have "fold max ys x = Max (set (x # ys))" by (simp only: Max.set_eq_fold)
  then show ?thesis by (simp only: xs py_max.simps)
qed

lemma fold_max_key:
  "fold (\<lambda>y b. if f y > f b then y else b) xs b =
     (if \<exists>y \<in> set xs. f y > f b
      then hd (filter (\<lambda>p. f p = Max (f ` set xs)) xs) else b)"
proof (induction xs arbitrary: b)
  case Nil
  then show ?case by simp
next
  case (Cons y ys)
  show ?case
  proof (cases "f y > f b")
    case True
    show ?thesis
    proof (cases "\<exists>z \<in> set ys. f z > f y")
      case True
      then obtain z where z: "z \<in> set ys" "f z > f y" by blast
      have "Max (f ` set ys) \<ge> f z" using z by simp
      then have gt: "Max (f ` set ys) > f y" using z(2) by (meson less_le_trans)
      have ne: "set ys \<noteq> {}" using z by auto
      have "Max (f ` set (y # ys)) = Max (f ` set ys)"
        using gt ne by (simp add: max_absorb2 less_imp_le)
      moreover have "f y \<noteq> Max (f ` set ys)" using gt by simp
      ultimately show ?thesis using \<open>f y > f b\<close> True by (simp add: Cons.IH)
    next
      case False
      then have le: "\<forall>z \<in> set ys. f z \<le> f y" by auto
      have "Max (f ` set (y # ys)) = f y"
        using le by (auto intro!: Max_eqI)
      then show ?thesis using \<open>f y > f b\<close> False by (simp add: Cons.IH)
    qed
  next
    case False
    show ?thesis
    proof (cases "\<exists>z \<in> set ys. f z > f b")
      case True
      then obtain z where z: "z \<in> set ys" "f z > f b" by blast
      have "Max (f ` set ys) \<ge> f z" using z by simp
      then have gt: "Max (f ` set ys) > f y" using z(2) False by (meson less_le_trans not_less)
      have ne: "set ys \<noteq> {}" using z by auto
      have "Max (f ` set (y # ys)) = Max (f ` set ys)"
        using gt ne by (simp add: max_absorb2 less_imp_le)
      moreover have "f y \<noteq> Max (f ` set ys)" using gt by simp
      ultimately show ?thesis using False True by (simp add: Cons.IH)
    next
      case F2: False
      then show ?thesis using False by (simp add: Cons.IH)
    qed
  qed
qed

lemma py_max_key_eq:
  assumes "xs \<noteq> []"
  shows "py_max_key f xs = Inr (hd (filter (\<lambda>p. f p = Max (f ` set xs)) xs))"
proof -
  obtain x ys where xs: "xs = x # ys" using assms by (cases xs) auto
  show ?thesis
  proof (cases "\<exists>z \<in> set ys. f z > f x")
    case True
    then obtain z where z: "z \<in> set ys" "f z > f x" by blast
    have "Max (f ` set ys) \<ge> f z" using z by simp
    then have gt: "Max (f ` set ys) > f x" using z(2) by (meson less_le_trans)
    have ne: "set ys \<noteq> {}" using z by auto
    have "Max (f ` set (x # ys)) = Max (f ` set ys)"
      using gt ne by (simp add: max_absorb2 less_imp_le)
    moreover have "f x \<noteq> Max (f ` set ys)" using gt by simp
    ultimately show ?thesis using True by (simp add: xs fold_max_key)
  next
    case False
    then have le: "\<forall>z \<in> set ys. f z \<le> f x" by auto
    have "Max (f ` set (x # ys)) = f x"
      using le by (auto intro!: Max_eqI)
    then show ?thesis using False by (simp add: xs fold_max_key)
  qed
qed

lemma last_filter_keep: "xs \<noteq> [] \<Longrightarrow> P (last xs) \<Longrightarrow> last (filter P xs) = last xs"
  by (induction xs rule: rev_induct) auto

lemma last_sort_key:
  assumes "xs \<noteq> []"
  shows "last (sort_key f xs) = last (filter (\<lambda>p. f p = Max (f ` set xs)) xs)"
proof -
  let ?s = "sort_key f xs"
  have ne: "?s \<noteq> []" using assms by (metis length_0_conv length_sort)
  have srt: "sorted (map f ?s)" by simp
  have "\<forall>p \<in> set ?s. f p \<le> f (last ?s)"
  proof
    fix p assume "p \<in> set ?s"
    then obtain i where i: "i < length ?s" "?s ! i = p" by (meson in_set_conv_nth)
    have "map f ?s ! i \<le> map f ?s ! (length ?s - 1)"
      using srt i ne by (intro sorted_nth_mono) auto
    then show "f p \<le> f (last ?s)" using i ne by (simp add: last_conv_nth)
  qed
  moreover have "last ?s \<in> set xs" using ne last_in_set [of ?s] by simp
  ultimately have "f (last ?s) = Max (f ` set xs)"
    by (intro Max_eqI [symmetric]) auto
  then have "last (filter (\<lambda>p. f p = Max (f ` set xs)) ?s) = last ?s"
    using ne by (intro last_filter_keep) simp_all
  then show ?thesis by (simp add: sort_key_stable)
qed

lemma py_last_eq: "xs \<noteq> [] \<Longrightarrow> py_last xs = Inr (last xs)"
  by (cases xs) simp_all

lemma hd_last_distinct:
  assumes "distinct (map f E)" "E \<noteq> []"
  shows "(f (last E) \<noteq> f (hd E)) = (length E \<noteq> 1)"
proof (cases E)
  case Nil
  then show ?thesis using assms by simp
next
  case (Cons e es)
  show ?thesis
  proof (cases es)
    case Nil
    then show ?thesis using Cons by simp
  next
    case (Cons e' es')
    have "last E \<in> set es" using \<open>E = e # es\<close> Cons by simp
    then have "f (last E) \<in> f ` set es" by blast
    then show ?thesis using assms(1) \<open>E = e # es\<close> Cons by auto
  qed
qed

lemma decide_best_eq:
  assumes ne: "bs \<noteq> []" and dist: "distinct (map fst bs)"
  shows "decide_best bs md =
     Inr (if margin_ok (set bs) md \<and> card (top_items (set bs)) = 1
          then (Some (fst (the_elem (top_items (set bs)))), rescued)
          else (None, ambiguousOrFusion))"
proof -
  let ?M = "Max (snd ` set bs)"
  let ?E = "filter (\<lambda>p. snd p = ?M) bs"
  have setE: "set ?E = top_items (set bs)" by (auto simp: top_items_def)
  have "?M \<in> snd ` set bs" using ne by (intro Max_in) auto
  then have Ene: "?E \<noteq> []" by (force simp: filter_empty_conv)
  have distE: "distinct (map fst ?E)" using dist by (simp add: distinct_map_filter)
  then have dE: "distinct ?E" by (simp add: distinct_map)
  have len: "length ?E = card (top_items (set bs))"
    using dE setE by (metis distinct_card)
  have m1: "py_max (map snd bs) = Inr ?M" using ne by (simp add: py_max_eq)
  have m2: "py_max_key snd bs = Inr (hd ?E)" using ne by (rule py_max_key_eq)
  have sne: "sort_key snd bs \<noteq> []" using ne by (metis length_0_conv length_sort)
  have m3: "py_last (sort_key snd bs) = Inr (last ?E)"
    using sne ne by (simp add: py_last_eq last_sort_key)
  have acc: "list_all (\<lambda>x. md \<le> float_sub ?M x) (filter (\<lambda>x. x \<noteq> ?M) (map snd bs))
             = margin_ok (set bs) md"
    by (auto simp: list_all_iff margin_ok_def)
  have hl: "(fst (last ?E) \<noteq> fst (hd ?E)) = (card (top_items (set bs)) \<noteq> 1)"
    using hd_last_distinct [OF distE Ene] len by simp
  have one: "card (top_items (set bs)) = 1 \<Longrightarrow> the_elem (top_items (set bs)) = last ?E"
  proof -
    assume "card (top_items (set bs)) = 1"
    then have "length ?E = 1" using len by simp
    then obtain e where e: "?E = [e]" by (cases ?E) auto
    then have "top_items (set bs) = {e}" using setE by (metis list.simps(15) empty_set)
    then show ?thesis using e by simp
  qed
  show ?thesis
    unfolding decide_best_def m1 m2 m3 using acc hl one by (auto simp: Let_def)
qed

lemma decide_best_cong:
  assumes "distinct (map fst bs)" "distinct (map fst bs')" "set bs = set bs'"
  shows "decide_best bs md = decide_best bs' md"
proof (cases "bs = []")
  case True
  then show ?thesis using assms by simp
next
  case False
  then have "bs' \<noteq> []" using assms(3) by auto
  then show ?thesis using False assms by (simp add: decide_best_eq)
qed

subsection \<open>The check of line 230 and the scores of \<^verbatim>\<open>resolve_multiple_genes\<close>\<close>

lemma combinations2_map: "combinations2 (map f zs) = map (map_prod f f) (combinations2 zs)"
  by (induction zs) simp_all

lemma combinations2_subset: "(a, b) \<in> set (combinations2 zs) \<Longrightarrow> a \<in> set zs \<and> b \<in> set zs"
  by (induction zs) auto

lemma combinations2_distinct:
  "distinct zs \<Longrightarrow> (a, b) \<in> set (combinations2 zs) \<Longrightarrow> a \<noteq> b"
  by (induction zs) (auto dest: combinations2_subset)

lemma combinations2_total:
  "a \<in> set zs \<Longrightarrow> b \<in> set zs \<Longrightarrow> a \<noteq> b \<Longrightarrow>
     (a, b) \<in> set (combinations2 zs) \<or> (b, a) \<in> set (combinations2 zs)"
  by (induction zs) auto

lemma groups_items:
  "(g, l) \<in> set (group_transcripts_by_name2 xs) \<longleftrightarrow> g \<in> name2 ` set xs \<and> l = gene_txs xs g"
proof -
  have d: "distinct (map fst (group_transcripts_by_name2 xs))"
    unfolding group_transcripts_by_name2_def by (rule distinct_fold_dict_append) simp
  have "(g, l) \<in> set (group_transcripts_by_name2 xs) \<longleftrightarrow> map_of (group_transcripts_by_name2 xs) g = Some l"
    using d by simp
  also have "\<dots> \<longleftrightarrow> g \<in> name2 ` set xs \<and> l = gene_txs xs g"
    unfolding group_transcripts_by_name2_def gene_txs_def
    by (auto simp: map_of_fold_dict_append filter_empty_conv)
  finally show ?thesis .
qed

lemma groups_eq:
  "group_transcripts_by_name2 xs =
     map (\<lambda>g. (g, gene_txs xs g)) (map fst (group_transcripts_by_name2 xs))"
proof -
  have "\<forall>p \<in> set (group_transcripts_by_name2 xs). p = (fst p, gene_txs xs (fst p))"
    using groups_items [of _ _ xs] by (metis prod.collapse)
  then show ?thesis by (simp add: map_idI)
qed

lemma groups_keys:
  "set (map fst (group_transcripts_by_name2 xs)) = name2 ` set xs"
  "distinct (map fst (group_transcripts_by_name2 xs))"
  unfolding group_transcripts_by_name2_def
  by (simp_all add: keys_fold_dict_append distinct_fold_dict_append)

lemma tm_jaccards_of_eq:
  "tm_jaccards_of T xs =
     map (\<lambda>(g1, g2). find_highest_gene_jaccard T (gene_txs xs g1) (gene_txs xs g2))
       (combinations2 (map fst (group_transcripts_by_name2 xs)))"
proof -
  have "map snd (group_transcripts_by_name2 xs) = map (gene_txs xs) (map fst (group_transcripts_by_name2 xs))"
    by (subst groups_eq) (simp add: comp_def)
  then have "tm_jaccards_of T xs =
      map (\<lambda>(x, y). find_highest_gene_jaccard T x y)
        (map (map_prod (gene_txs xs) (gene_txs xs))
           (combinations2 (map fst (group_transcripts_by_name2 xs))))"
    by (simp only: tm_jaccards_of_def combinations2_map)
  then show ?thesis by (simp add: comp_def case_prod_beta)
qed

lemma gate_if_all_pairs:
  assumes "all_gene_pairs_exceed T xs tj"
  shows "list_all (\<lambda>x. x > tj) (tm_jaccards_of T xs)"
  unfolding tm_jaccards_of_eq list_all_iff
proof
  fix x assume "x \<in> set (map (\<lambda>(g1, g2). find_highest_gene_jaccard T (gene_txs xs g1) (gene_txs xs g2))
       (combinations2 (map fst (group_transcripts_by_name2 xs))))"
  then obtain g1 g2 where p: "(g1, g2) \<in> set (combinations2 (map fst (group_transcripts_by_name2 xs)))"
    and x: "x = find_highest_gene_jaccard T (gene_txs xs g1) (gene_txs xs g2)" by auto
  have "g1 \<in> name2 ` set xs" "g2 \<in> name2 ` set xs"
    using combinations2_subset [OF p] groups_keys(1) [of xs] by auto
  moreover have "g1 \<noteq> g2" using combinations2_distinct [OF groups_keys(2) p] .
  ultimately show "tj < x" using assms x unfolding all_gene_pairs_exceed_def by blast
qed

lemma gate_iff_all_pairs:
  assumes sym: "\<forall>a b. calculate_bed12_jaccard T a b = calculate_bed12_jaccard T b a"
  shows "list_all (\<lambda>x. x > tj) (tm_jaccards_of T xs) = all_gene_pairs_exceed T xs tj"
proof
  assume "all_gene_pairs_exceed T xs tj"
  then show "list_all (\<lambda>x. x > tj) (tm_jaccards_of T xs)" by (rule gate_if_all_pairs)
next
  assume g: "list_all (\<lambda>x. x > tj) (tm_jaccards_of T xs)"
  let ?J = "\<lambda>g1 g2. find_highest_gene_jaccard T (gene_txs xs g1) (gene_txs xs g2)"
  have symJ: "?J g1 g2 = ?J g2 g1" for g1 g2
    unfolding find_highest_gene_jaccard_def using sym by blast
  have all: "\<forall>(g1, g2) \<in> set (combinations2 (map fst (group_transcripts_by_name2 xs))). tj < ?J g1 g2"
    using g unfolding tm_jaccards_of_eq list_all_iff by auto
  show "all_gene_pairs_exceed T xs tj"
    unfolding all_gene_pairs_exceed_def
  proof (intro ballI impI)
    fix g1 g2 assume "g1 \<in> name2 ` set xs" "g2 \<in> name2 ` set xs" "g1 \<noteq> g2"
    then have "(g1, g2) \<in> set (combinations2 (map fst (group_transcripts_by_name2 xs)))
             \<or> (g2, g1) \<in> set (combinations2 (map fst (group_transcripts_by_name2 xs)))"
      using groups_keys(1) [of xs] by (intro combinations2_total) auto
    then show "tj < ?J g1 g2" using all symJ [of g1 g2] by auto
  qed
qed

lemma best_scores_of_eq:
  "\<forall>p \<in> set scores. snd p \<noteq> [] \<Longrightarrow>
     best_scores_of scores = Inr (map (\<lambda>p. (fst p, Max (set (snd p)))) scores)"
proof (induction scores)
  case Nil
  then show ?case by simp
next
  case (Cons p scores)
  obtain g s where p: "p = (g, s)" by (cases p)
  have "s \<noteq> []" using Cons.prems p by simp
  then show ?case using Cons p by (simp add: py_max_eq)
qed

lemma scores_items:
  "(g, l) \<in> set (asymmetric_scores T dn xs) \<longleftrightarrow>
     g \<in> name2 ` set xs \<and>
     l = map (\<lambda>tx. calculate_bed12_asymmetric_jaccard T (exon_intervals dn) (exon_intervals tx))
           (gene_txs xs g)"
proof -
  have d: "distinct (map fst (asymmetric_scores T dn xs))"
    unfolding asymmetric_scores_def by (rule distinct_fold_dict_append) simp
  have "(g, l) \<in> set (asymmetric_scores T dn xs) \<longleftrightarrow> map_of (asymmetric_scores T dn xs) g = Some l"
    using d by simp
  also have "\<dots> \<longleftrightarrow> g \<in> name2 ` set xs \<and>
     l = map (\<lambda>tx. calculate_bed12_asymmetric_jaccard T (exon_intervals dn) (exon_intervals tx))
           (gene_txs xs g)"
    unfolding asymmetric_scores_def gene_txs_def
    by (auto simp: map_of_fold_dict_append filter_empty_conv)
  finally show ?thesis .
qed

lemma best_scores_asymmetric:
  "\<exists>bs. best_scores_of (asymmetric_scores T dn xs) = Inr bs \<and> distinct (map fst bs)
        \<and> set bs = score_table T dn xs"
proof -
  let ?sc = "asymmetric_scores T dn xs"
  let ?bs = "map (\<lambda>p. (fst p, Max (set (snd p)))) ?sc"
  have ne: "\<forall>p \<in> set ?sc. snd p \<noteq> []"
  proof
    fix p assume "p \<in> set ?sc"
    then have "(fst p, snd p) \<in> set ?sc" by simp
    then show "snd p \<noteq> []"
      unfolding scores_items gene_txs_def by (auto simp: filter_empty_conv)
  qed
  have d: "distinct (map fst ?sc)"
    unfolding asymmetric_scores_def by (rule distinct_fold_dict_append) simp
  have "set ?bs = score_table T dn xs"
  proof (intro set_eqI iffI)
    fix q assume "q \<in> set ?bs"
    then obtain p where p: "p \<in> set ?sc" "q = (fst p, Max (set (snd p)))" by auto
    then have "(fst p, snd p) \<in> set ?sc" by simp
    then show "q \<in> score_table T dn xs"
      unfolding scores_items score_table_def gene_score_def using p(2) by auto
  next
    fix q assume "q \<in> score_table T dn xs"
    then obtain g where g: "g \<in> name2 ` set xs" "q = (g, gene_score T dn xs g)"
      unfolding score_table_def by auto
    let ?l = "map (\<lambda>tx. calculate_bed12_asymmetric_jaccard T (exon_intervals dn) (exon_intervals tx))
           (gene_txs xs g)"
    have "(g, ?l) \<in> set ?sc" using g(1) by (simp add: scores_items)
    then have "(\<lambda>p. (fst p, Max (set (snd p)))) (g, ?l) \<in> (\<lambda>p. (fst p, Max (set (snd p)))) ` set ?sc"
      by (rule imageI)
    then show "q \<in> set ?bs" using g(2) unfolding gene_score_def by simp
  qed
  moreover have "distinct (map fst ?bs)" using d by (simp add: comp_def)
  ultimately show ?thesis using best_scores_of_eq [OF ne] by blast
qed

lemma score_table_empty: "score_table T dn xs = {} \<longleftrightarrow> xs = []"
  by (simp add: score_table_def)

lemma tm_jaccards_Nil: "tm_jaccards_of T [] = []"
  by (simp add: tm_jaccards_of_def group_transcripts_by_name2_def)

lemma resolve_multiple_genes_eq:
  "resolve_multiple_genes T dn xs md tj =
     Inr (if list_all (\<lambda>x. x > tj) (tm_jaccards_of T xs) then (None, badAnnotOrTm)
          else if margin_ok (score_table T dn xs) md \<and> card (top_items (score_table T dn xs)) = 1
          then (Some (fst (the_elem (top_items (score_table T dn xs)))), rescued)
          else (None, ambiguousOrFusion))"
proof (cases "list_all (\<lambda>x. x > tj) (tm_jaccards_of T xs)")
  case True
  then show ?thesis by (simp add: resolve_multiple_genes_def)
next
  case False
  then have "xs \<noteq> []" using tm_jaccards_Nil by auto
  obtain bs where bs: "best_scores_of (asymmetric_scores T dn xs) = Inr bs"
     "distinct (map fst bs)" "set bs = score_table T dn xs"
    using best_scores_asymmetric by blast
  have "bs \<noteq> []" using bs(3) \<open>xs \<noteq> []\<close> score_table_empty [of T dn xs] by auto
  then show ?thesis
    using False bs by (simp add: resolve_multiple_genes_def decide_best_eq)
qed

section \<open>The claims about \<^verbatim>\<open>resolve_multiple_genes\<close>\<close>

lemma score_table_Max:
  assumes "sole_best_by_margin T dn xs md g"
  shows "Max (snd ` score_table T dn xs) = gene_score T dn xs g"
proof (rule Max_eqI)
  show "finite (snd ` score_table T dn xs)" by (simp add: score_table_def)
  show "gene_score T dn xs g \<in> snd ` score_table T dn xs"
    using assms unfolding sole_best_by_margin_def score_table_def by force
  fix y assume "y \<in> snd ` score_table T dn xs"
  then obtain g' where "g' \<in> name2 ` set xs" "y = gene_score T dn xs g'"
    unfolding score_table_def by force
  then show "y \<le> gene_score T dn xs g"
    using assms unfolding sole_best_by_margin_def by (cases "g' = g") auto
qed

lemma sole_best_top_items:
  assumes "sole_best_by_margin T dn xs md g"
  shows "top_items (score_table T dn xs) = {(g, gene_score T dn xs g)}"
  unfolding top_items_def score_table_Max [OF assms]
  using assms unfolding sole_best_by_margin_def score_table_def by auto

lemma sole_best_margin_ok:
  assumes "sole_best_by_margin T dn xs md g" and "round_to_double md = md"
  shows "margin_ok (score_table T dn xs) md"
  unfolding margin_ok_def score_table_Max [OF assms(1)]
proof (intro ballI impI)
  fix p assume p: "p \<in> score_table T dn xs" "snd p \<noteq> gene_score T dn xs g"
  then obtain g' where g': "g' \<in> name2 ` set xs" "snd p = gene_score T dn xs g'"
    unfolding score_table_def by force
  then have "g' \<noteq> g" using p(2) by auto
  then have "md \<le> gene_score T dn xs g - gene_score T dn xs g'"
    using assms(1) g'(1) unfolding sole_best_by_margin_def by blast
  then show "md \<le> float_sub (gene_score T dn xs g) (snd p)"
    unfolding g'(2) by (rule float_sub_margin [OF assms(2)])
qed

text \<open>The subtraction of line 241 at the scores 0.7 and 0.3: the difference of the two
  floats is the float below 0.4, so the margin is not sufficient and no gene is assigned.
  At the scores 0.5 and 0.1 the exact difference of the two floats is below the float 0.4
  and is rounded to it, so the margin is sufficient and the gene is assigned.\<close>

lemma float_margin_example:
  "gene_score spec_tools ex_denovo_ten [ex_txR, ex_txS] ''R'' = round_to_double (7 / 10)
   \<and> gene_score spec_tools ex_denovo_ten [ex_txR, ex_txS] ''S'' = round_to_double (3 / 10)
   \<and> float_sub (round_to_double (7 / 10)) (round_to_double (3 / 10)) < ex_min_distance
   \<and> round_to_double (7 / 10) - round_to_double (3 / 10) < ex_min_distance
   \<and> resolve_multiple_genes spec_tools ex_denovo_ten [ex_txR, ex_txS] ex_min_distance (1 / 4)
       = Inr (None, ambiguousOrFusion)
   \<and> gene_score spec_tools ex_denovo_ten [ex_txV, ex_txW] ''V'' = 1 / 2
   \<and> gene_score spec_tools ex_denovo_ten [ex_txV, ex_txW] ''W'' = round_to_double (1 / 10)
   \<and> float_sub (1 / 2) (round_to_double (1 / 10)) = ex_min_distance
   \<and> 1 / 2 - round_to_double (1 / 10) < ex_min_distance
   \<and> resolve_multiple_genes spec_tools ex_denovo_ten [ex_txV, ex_txW] ex_min_distance (1 / 4)
       = Inr (Some ''V'', rescued)"
  by code_simp

lemma tied_top_items:
  assumes "tied_maximum T dn xs"
  shows "card (top_items (score_table T dn xs)) \<noteq> 1"
proof -
  obtain g1 g2 where g: "g1 \<in> name2 ` set xs" "g2 \<in> name2 ` set xs" "g1 \<noteq> g2"
    "gene_score T dn xs g1 = gene_score T dn xs g2"
    "\<forall>g \<in> name2 ` set xs. gene_score T dn xs g \<le> gene_score T dn xs g1"
    using assms unfolding tied_maximum_def by blast
  have M: "Max (snd ` score_table T dn xs) = gene_score T dn xs g1"
  proof (rule Max_eqI)
    show "finite (snd ` score_table T dn xs)" by (simp add: score_table_def)
    show "gene_score T dn xs g1 \<in> snd ` score_table T dn xs"
      using g(1) unfolding score_table_def by force
    fix y assume "y \<in> snd ` score_table T dn xs"
    then show "y \<le> gene_score T dn xs g1" using g(5) unfolding score_table_def by auto
  qed
  have "(g1, gene_score T dn xs g1) \<in> top_items (score_table T dn xs)"
    "(g2, gene_score T dn xs g1) \<in> top_items (score_table T dn xs)"
    unfolding top_items_def M using g unfolding score_table_def by auto
  then show ?thesis using g(3) by (auto simp: card_1_singleton_iff)
qed

lemma tie_detection:
  assumes "bs \<noteq> []" "distinct (map fst bs)"
    and "py_max_key snd bs = Inr high_item" "py_last (sort_key snd bs) = Inr best_item"
  shows "(fst best_item \<noteq> fst high_item) =
     (\<exists>p \<in> set bs. \<exists>q \<in> set bs. fst p \<noteq> fst q \<and> snd p = Max (snd ` set bs) \<and> snd q = Max (snd ` set bs))"
proof -
  let ?M = "Max (snd ` set bs)"
  let ?E = "filter (\<lambda>p. snd p = ?M) bs"
  have "?M \<in> snd ` set bs" using assms(1) by (intro Max_in) auto
  then have Ene: "?E \<noteq> []" by (force simp: filter_empty_conv)
  have distE: "distinct (map fst ?E)" using assms(2) by (simp add: distinct_map_filter)
  have sne: "sort_key snd bs \<noteq> []" using assms(1) by (metis length_0_conv length_sort)
  have h: "high_item = hd ?E" using assms(1,3) by (simp add: py_max_key_eq)
  have b: "best_item = last ?E" using sne assms(1,4) by (simp add: py_last_eq last_sort_key)
  have "(fst best_item \<noteq> fst high_item) = (length ?E \<noteq> 1)"
    unfolding h b by (rule hd_last_distinct [OF distE Ene])
  also have "\<dots> = (\<exists>p \<in> set ?E. \<exists>q \<in> set ?E. fst p \<noteq> fst q)"
  proof
    assume "length ?E \<noteq> 1"
    then obtain e e' es where E: "?E = e # e' # es" using Ene
      by (cases ?E; cases "tl ?E") auto
    then have "fst e \<noteq> fst e'" using distE by (metis distinct_length_2_or_more list.simps(9))
    moreover have "e \<in> set ?E" "e' \<in> set ?E" unfolding E by simp_all
    ultimately show "\<exists>p \<in> set ?E. \<exists>q \<in> set ?E. fst p \<noteq> fst q" by blast
  next
    assume "\<exists>p \<in> set ?E. \<exists>q \<in> set ?E. fst p \<noteq> fst q"
    then obtain p q where "p \<in> set ?E" "q \<in> set ?E" "p \<noteq> q" by auto
    then show "length ?E \<noteq> 1" by (cases ?E; cases "tl ?E") auto
  qed
  also have "\<dots> = (\<exists>p \<in> set bs. \<exists>q \<in> set bs. fst p \<noteq> fst q \<and> snd p = ?M \<and> snd q = ?M)"
    by (simp only: set_filter mem_Collect_eq) blast
  finally show ?thesis .
qed

text \<open>
  Claim C1, as amended. When the check of line 230 does not fire, that is, when not every
  Jaccard value computed for the pairs of candidate genes exceeds \<^verbatim>\<open>tm_jaccard_distance\<close>,
  and exactly one candidate gene attains the maximum score while the score of every other
  candidate gene is at least \<^verbatim>\<open>min_distance\<close> below it, as a difference of numbers, the
  result is that gene with the method \<^verbatim>\<open>rescued\<close>. Here \<^verbatim>\<open>min_distance\<close> is a float; the
  rounding of the subtraction of line 241 keeps a margin that the exact difference has.
\<close>

theorem rescued_when_sole_best_by_margin:
  assumes "\<not> list_all (\<lambda>x. x > tm_jaccard_distance) (tm_jaccards_of T overlapping_tm_txs)"
    and "sole_best_by_margin T denovo_tx overlapping_tm_txs min_distance g"
    and "round_to_double min_distance = min_distance"
  shows "resolve_multiple_genes T denovo_tx overlapping_tm_txs min_distance tm_jaccard_distance
           = Inr (Some g, rescued)"
  using assms(1) sole_best_top_items [OF assms(2)] sole_best_margin_ok [OF assms(2,3)]
  by (simp add: resolve_multiple_genes_eq)

theorem rescued_when_sole_best_by_margin_witness:
  "\<not> list_all (\<lambda>x. x > 1 / 4) (tm_jaccards_of spec_tools [ex_txA, ex_txC])
   \<and> sole_best_by_margin spec_tools ex_denovo [ex_txA, ex_txC] ex_min_distance ''A''
   \<and> round_to_double ex_min_distance = ex_min_distance
   \<and> resolve_multiple_genes spec_tools ex_denovo [ex_txA, ex_txC] ex_min_distance (1 / 4)
       = Inr (Some ''A'', rescued)"
proof -
  have h1: "\<not> list_all (\<lambda>x. x > 1 / 4) (tm_jaccards_of spec_tools [ex_txA, ex_txC])"
    by code_simp
  have h2: "sole_best_by_margin spec_tools ex_denovo [ex_txA, ex_txC] ex_min_distance ''A''"
    by code_simp
  have h3: "round_to_double ex_min_distance = ex_min_distance"
    by code_simp
  show ?thesis
    using h1 h2 h3 rescued_when_sole_best_by_margin [OF h1 h2 h3] by simp
qed

text \<open>
  Claim C1 as stated fails: genes A and B have footprints with Jaccard value 1/2, above
  the threshold 1/4, so the result is \<^verbatim>\<open>badAnnotOrTm\<close> although A alone has the best
  score (1 against 0) by a margin of at least 0.4.
\<close>

theorem sole_best_not_rescued_counterexample:
  "2 \<le> card (name2 ` set [ex_txA, ex_txB])
   \<and> sole_best_by_margin spec_tools ex_denovo [ex_txA, ex_txB] ex_min_distance ''A''
   \<and> resolve_multiple_genes spec_tools ex_denovo [ex_txA, ex_txB] ex_min_distance (1 / 4)
       = Inr (None, badAnnotOrTm)"
  by code_simp

text \<open>
  Claim C2, as amended. When the check of line 230 does not fire and two different
  candidate genes attain the maximum score, the result is no gene with the method
  \<^verbatim>\<open>ambiguousOrFusion\<close>. Moreover, on a non-empty dictionary of best scores, the gene
  taken last after the stable ascending sort differs from the gene found first by
  \<^verbatim>\<open>max\<close> exactly when two different genes attain the maximum.
\<close>

theorem ambiguous_when_tied_maximum:
  "(\<not> list_all (\<lambda>x. x > tm_jaccard_distance) (tm_jaccards_of T overlapping_tm_txs)
      \<and> tied_maximum T denovo_tx overlapping_tm_txs
    \<longrightarrow> resolve_multiple_genes T denovo_tx overlapping_tm_txs min_distance tm_jaccard_distance
          = Inr (None, ambiguousOrFusion))
   \<and> (best_scores \<noteq> [] \<and> distinct (map fst best_scores)
        \<and> py_max_key snd best_scores = Inr high_item
        \<and> py_last (sort_key snd best_scores) = Inr best_item
      \<longrightarrow> (fst best_item \<noteq> fst high_item) =
          (\<exists>p \<in> set best_scores. \<exists>q \<in> set best_scores. fst p \<noteq> fst q
              \<and> snd p = Max (snd ` set best_scores) \<and> snd q = Max (snd ` set best_scores)))"
  using tied_top_items [of T denovo_tx overlapping_tm_txs]
    tie_detection [of best_scores high_item best_item]
  by (simp add: resolve_multiple_genes_eq)

theorem ambiguous_when_tied_maximum_witness:
  "\<not> list_all (\<lambda>x. x > 1 / 4) (tm_jaccards_of spec_tools [ex_txA, ex_txC])
   \<and> tied_maximum spec_tools ex_denovo_tie [ex_txA, ex_txC]
   \<and> resolve_multiple_genes spec_tools ex_denovo_tie [ex_txA, ex_txC] ex_min_distance (1 / 4)
       = Inr (None, ambiguousOrFusion)
   \<and> py_max_key snd [(''A'', 1 / 2 :: rat), (''C'', 1 / 2)] = Inr (''A'', 1 / 2)
   \<and> py_last (sort_key snd [(''A'', 1 / 2 :: rat), (''C'', 1 / 2)]) = Inr (''C'', 1 / 2)
   \<and> (\<exists>p \<in> set [(''A'', 1 / 2 :: rat), (''C'', 1 / 2)].
         \<exists>q \<in> set [(''A'', 1 / 2 :: rat), (''C'', 1 / 2)]. fst p \<noteq> fst q
           \<and> snd p = Max (snd ` set [(''A'', 1 / 2 :: rat), (''C'', 1 / 2)])
           \<and> snd q = Max (snd ` set [(''A'', 1 / 2 :: rat), (''C'', 1 / 2)]))"
proof -
  have h1: "\<not> list_all (\<lambda>x. x > 1 / 4) (tm_jaccards_of spec_tools [ex_txA, ex_txC])"
    by code_simp
  have h2: "tied_maximum spec_tools ex_denovo_tie [ex_txA, ex_txC]"
    by code_simp
  have h3: "[(''A'', 1 / 2 :: rat), (''C'', 1 / 2)] \<noteq> []
            \<and> distinct (map fst [(''A'', 1 / 2 :: rat), (''C'', 1 / 2)])"
    by simp
  have h4: "py_max_key snd [(''A'', 1 / 2 :: rat), (''C'', 1 / 2)] = Inr (''A'', 1 / 2)"
    by simp
  have h5: "py_last (sort_key snd [(''A'', 1 / 2 :: rat), (''C'', 1 / 2)]) = Inr (''C'', 1 / 2)"
    by simp
  show ?thesis
    using h1 h2 h3 h4 h5
      ambiguous_when_tied_maximum [of "1 / 4" spec_tools "[ex_txA, ex_txC]" ex_denovo_tie ex_min_distance
        "[(''A'', 1 / 2), (''C'', 1 / 2)]" "(''A'', 1 / 2)" "(''C'', 1 / 2)"]
    by simp
qed

text \<open>
  Claim C2 as stated fails: A and B both attain the maximum score 1, but their footprints
  have Jaccard value 1/2, above the threshold 1/4, so the result is \<^verbatim>\<open>badAnnotOrTm\<close>.
\<close>

theorem tied_not_ambiguous_counterexample:
  "2 \<le> card (name2 ` set [ex_txA, ex_txB])
   \<and> tied_maximum spec_tools ex_denovo_shared [ex_txA, ex_txB]
   \<and> resolve_multiple_genes spec_tools ex_denovo_shared [ex_txA, ex_txB] ex_min_distance (1 / 4)
       = Inr (None, badAnnotOrTm)"
  by code_simp

section \<open>Properties of the decision for one de novo transcript\<close>

lemma resolve_multiple_genes_shape:
  "\<exists>rn m. resolve_multiple_genes T dn xs md tj = Inr (rn, m) \<and> ((m = rescued) = (rn \<noteq> None))"
  by (simp add: resolve_multiple_genes_eq)

lemma resolve_pool_coherent:
  "\<exists>d. resolve_pool T enum dn pool md tj = Inr d \<and> decision_coherent d \<and> snd d \<noteq> None"
proof -
  obtain rn m where "resolve_multiple_genes T dn (enum pool) md tj = Inr (rn, m)"
    "(m = rescued) = (rn \<noteq> None)"
    using resolve_multiple_genes_shape by blast
  then show ?thesis
    by (cases m) (auto simp: resolve_pool_def decision_coherent_def)
qed

lemma single_gene_match_shape:
  "single_gene_match T dn g2t ud md g = Inr d \<Longrightarrow> snd d = None \<and> (fst d = None \<or> fst d = Some g)"
  by (auto simp: single_gene_match_def split: sum.splits if_splits)

lemma single_gene_match_coherent:
  "single_gene_match T dn g2t ud md g = Inr d \<Longrightarrow> decision_coherent d"
  by (auto simp: decision_coherent_def dest: single_gene_match_shape)

lemma decide_without_conflicts_coherent:
  "decide_without_conflicts T enum ud md tj F g2t dn = Inr d \<Longrightarrow> decision_coherent d"
  using resolve_pool_coherent [of T enum dn F md tj]
  by (auto simp: decide_without_conflicts_def Let_def decision_coherent_def
      dest: single_gene_match_shape split: if_splits)

lemma decide_with_conflicts_coherent:
  "decide_with_conflicts T enum ud md tj F g2t dn nids refil = Inr d \<Longrightarrow> decision_coherent d"
  using resolve_pool_coherent [of T enum dn F md tj] resolve_pool_coherent [of T enum dn refil md tj]
  by (auto simp: decide_with_conflicts_def Let_def decision_coherent_def
      dest: single_gene_match_shape split: if_splits)

lemma emit_record_fields:
  assumes "finite pool" and "emit_record T dn g2t ud md pool d = Inr r"
  shows "TranscriptId r = name dn"
    and "AssignedGeneId r = fst d"
    and "AlternativeGeneIds r =
           (if passing_alternatives T dn g2t ud md pool (fst d) = {} then None
            else Some (py_join '','' (sorted_list_of_set (passing_alternatives T dn g2t ud md pool (fst d)))))"
    and "ResolutionMethod r =
           (if passing_alternatives T dn g2t ud md pool (fst d) = {} then None else snd d)"
proof -
  define alts where "alts = pool - (case fst d of None \<Rightarrow> {} | Some g \<Rightarrow> {g})"
  define S where "S = Set.filter
     (\<lambda>g. case gene_overlap T dn g2t ud g of Inl e \<Rightarrow> False | Inr ov \<Rightarrow> ov > md) alts"
  have "g \<in> S \<longleftrightarrow> g \<in> passing_alternatives T dn g2t ud md pool (fst d)" for g
    unfolding passing_alternatives_def S_def alts_def
    by (cases "gene_overlap T dn g2t ud g"; cases "fst d") auto
  then have S: "passing_alternatives T dn g2t ud md pool (fst d) = S" by blast
  have fin: "finite S" using assms(1) by (simp add: S_def alts_def)
  have "emit_record T dn g2t ud md pool d =
     (case filtered_alternative_gene_ids_of T dn g2t ud md alts of
        Inl e \<Rightarrow> Inl e
      | Inr fa \<Rightarrow>
          Inr \<lparr> TranscriptId = name dn, AssignedGeneId = fst d,
             AlternativeGeneIds = (if card fa > 0 then Some (py_join '','' (sorted_list_of_set fa)) else None),
             ResolutionMethod = (if card fa = 0 then None else snd d) \<rparr>)"
    by (simp only: emit_record_def Let_def alts_def)
  moreover have "filtered_alternative_gene_ids_of T dn g2t ud md alts = Inl KeyError
      \<or> filtered_alternative_gene_ids_of T dn g2t ud md alts = Inr S"
    by (simp only: filtered_alternative_gene_ids_of_def S_def split: if_splits) simp
  ultimately have r: "r = \<lparr> TranscriptId = name dn, AssignedGeneId = fst d,
             AlternativeGeneIds = (if card S > 0 then Some (py_join '','' (sorted_list_of_set S)) else None),
             ResolutionMethod = (if card S = 0 then None else snd d) \<rparr>"
    using assms(2) by auto
  have c: "(card S = 0) = (S = {})" "(card S > 0) = (S \<noteq> {})" using fin by (simp_all add: card_gt_0_iff)
  show "TranscriptId r = name dn" "AssignedGeneId r = fst d" by (simp_all add: r)
  show "AlternativeGeneIds r =
           (if passing_alternatives T dn g2t ud md pool (fst d) = {} then None
            else Some (py_join '','' (sorted_list_of_set (passing_alternatives T dn g2t ud md pool (fst d)))))"
    unfolding S r using c by simp
  show "ResolutionMethod r =
           (if passing_alternatives T dn g2t ud md pool (fst d) = {} then None else snd d)"
    unfolding S r using c by simp
qed

lemma emit_record_coherent:
  assumes "finite pool" and "emit_record T dn g2t ud md pool d = Inr r" and "decision_coherent d"
  shows "record_coherent r"
  using emit_record_fields [OF assms(1,2)] assms(3)
  by (auto simp: record_coherent_def decision_coherent_def)

lemma resolve_denovo_tx_coherent:
  assumes "resolve_denovo_tx T enum fd ud df md tj F U dn = Inr r"
  shows "record_coherent r"
proof (cases "exon_conflict_field df (name dn)")
  case None
  then obtain d where d: "decide_without_conflicts T enum ud md tj F
       (gene_to_tx_ids_of (enum F @ enum U)) dn = Inr d"
     "emit_record T dn (gene_to_tx_ids_of (enum F @ enum U)) ud md (name2 ` set U) d = Inr r"
    using assms
    by (auto simp: resolve_denovo_tx_def resolve_without_conflicts_def Let_def split: sum.splits)
  show ?thesis
    using emit_record_coherent [OF _ d(2) decide_without_conflicts_coherent [OF d(1)]] by simp
next
  case (Some c)
  then obtain ng rn d where d:
     "decide_with_conflicts T enum ud md tj F (gene_to_tx_ids_of (enum F @ enum U)) dn
        (nonoverlapping_gene_ids_of (gene_to_tx_ids_of (enum F @ enum U)) ng)
        (filter (\<lambda>tx. tx \<notin> set rn) F) = Inr d"
     "emit_record T dn (gene_to_tx_ids_of (enum F @ enum U)) ud md
        (name2 ` set (filter (\<lambda>tx. tx \<notin> set rn) F)) d = Inr r"
    using assms
    by (auto simp: resolve_denovo_tx_def resolve_with_conflicts_def Let_def split: sum.splits prod.splits)
  show ?thesis
    using emit_record_coherent [OF _ d(2) decide_with_conflicts_coherent [OF d(1)]] by simp
qed

lemma for_each_Inr_member:
  "for_each f xs = Inr ys \<Longrightarrow> y \<in> set ys \<Longrightarrow> \<exists>x \<in> set xs. f x = Inr y"
  by (induction xs arbitrary: ys) (auto split: sum.splits)

lemma assign_parents_record_origin:
  assumes "assign_parents T enum fd ud dd df md tj = Inr rs" and "r \<in> set rs"
  shows "\<exists>F U dn. resolve_denovo_tx T enum fd ud df md tj F U dn = Inr r"
proof -
  obtain rss where rss: "for_each (process_cluster T enum fd ud dd df md tj) (groupby_cluster df) = Inr rss"
    "rs = concat rss"
    using assms(1) by (auto simp: assign_parents_def split: sum.splits)
  then obtain rs' where "rs' \<in> set rss" "r \<in> set rs'" using assms(2) by auto
  then obtain d where d: "process_cluster T enum fd ud dd df md tj d = Inr rs'"
    using for_each_Inr_member [OF rss(1)] by blast
  then obtain U F D where "for_each (resolve_denovo_tx T enum fd ud df md tj F U) (enum D) = Inr rs'"
    using \<open>r \<in> set rs'\<close>
    by (auto simp: process_cluster_def split: if_splits sum.splits prod.splits)
  from for_each_Inr_member [OF this \<open>r \<in> set rs'\<close>] show ?thesis by blast
qed

lemma resolve_denovo_tx_eq:
  "resolve_denovo_tx T enum fd ud df md tj F U dn =
     (case exon_conflict_narrowing enum fd df F U dn of
        Inl e \<Rightarrow> Inl e
      | Inr nw \<Rightarrow>
          (case primary_decision T enum ud md tj F (gene_to_tx_ids_of (enum F @ enum U)) dn nw of
             Inl e \<Rightarrow> Inl e
           | Inr d \<Rightarrow>
               emit_record T dn (gene_to_tx_ids_of (enum F @ enum U)) ud md (iterated_alternative_genes U nw) d))"
  by (simp add: resolve_denovo_tx_def exon_conflict_narrowing_def primary_decision_def
      resolve_with_conflicts_def resolve_without_conflicts_def iterated_alternative_genes_def Let_def
      split: option.splits sum.splits prod.splits)



lemma iterated_alternative_genes_finite: "finite (iterated_alternative_genes U nw)"
  by (simp add: iterated_alternative_genes_def split: option.splits prod.splits)


lemma primary_decision_multiple:
  assumes "2 \<le> card (candidate_gene_ids F nw)"
  shows "primary_decision T enum ud md tj F g2t dn nw =
           resolve_pool T enum dn (disambiguation_pool F nw) md tj"
proof (cases nw)
  case None
  then show ?thesis using assms
    by (simp add: primary_decision_def decide_without_conflicts_def candidate_gene_ids_def
        disambiguation_pool_def)
next
  case (Some p)
  obtain nids refil where p: "p = (nids, refil)" by (cases p)
  have c: "2 \<le> card (name2 ` set F - nids)" using assms Some p by (simp add: candidate_gene_ids_def)
  have "card (name2 ` set F - nids) \<le> card (name2 ` set F)"
    by (intro card_mono) auto
  then have c1: "card (name2 ` set F) \<noteq> 1" using c by simp
  have "name2 ` set F - nids \<noteq> {}"
  proof
    assume "name2 ` set F - nids = {}"
    then have "card (name2 ` set F - nids) = 0" by (simp only: card.empty)
    then show False using c by linarith
  qed
  then have c2a: "\<not> name2 ` set F \<subseteq> nids" by blast
  have c2b: "1 < card (name2 ` set F - nids)" using c by simp
  note c2 = c2a c2b
  show ?thesis
    unfolding Some p primary_decision_def decide_with_conflicts_def disambiguation_pool_def Let_def
    using c1 c2 by simp
qed

lemma all_pairs_resolve_multiple_genes:
  "all_gene_pairs_exceed T xs tj \<Longrightarrow> resolve_multiple_genes T dn xs md tj = Inr (None, badAnnotOrTm)"
  by (simp add: resolve_multiple_genes_eq gate_if_all_pairs)

section \<open>The claims about the exon conflicts\<close>

lemma scan_conflicts_drop:
  "scan_conflicts t2g fd cs acc = Inr res \<Longrightarrow>
   \<forall>c \<in> set cs. \<not> Q c \<longrightarrow> \<not> names_cluster_reference t2g c \<Longrightarrow>
   scan_conflicts t2g fd (filter Q cs) acc = Inr res"
proof (induction cs arbitrary: acc)
  case Nil
  then show ?case by simp
next
  case (Cons c cs)
  obtain ng rn where acc: "acc = (ng, rn)" by (cases acc)
  show ?case
  proof (cases "split_on CHR '':'' c")
    case Nil
    then show ?thesis using Cons.prems(1) acc by simp
  next
    case (Cons a as)
    note sp = this
    show ?thesis
    proof (cases as)
      case Nil
      then show ?thesis using Cons.prems(1) acc sp by simp
    next
      case (Cons t rest)
      have id: "conflict_tx_id c = Some t" using sp Cons by (simp add: conflict_tx_id_def)
      show ?thesis
      proof (cases "t2g t")
        case None
        then have "scan_conflicts t2g fd cs acc = Inr res"
          using Cons.prems(1) acc sp Cons by simp
        then have "scan_conflicts t2g fd (filter Q cs) acc = Inr res"
          using Cons.IH Cons.prems(2) by simp
        then show ?thesis using None acc sp Cons by simp
      next
        case (Some g)
        then have "names_cluster_reference t2g c" using id by (simp add: names_cluster_reference_def)
        then have q: "Q c" using Cons.prems(2) by auto
        let ?acc' = "(dict_append ng g t, (case fd t of None \<Rightarrow> rn | Some tx \<Rightarrow> set_add tx rn))"
        have "scan_conflicts t2g fd cs ?acc' = Inr res"
          using Cons.prems(1) acc sp Cons Some by simp
        then have "scan_conflicts t2g fd (filter Q cs) ?acc' = Inr res"
          using Cons.IH Cons.prems(2) by simp
        then show ?thesis using Some acc sp Cons q by simp
      qed
    qed
  qed
qed

lemma scan_conflicts_genes:
  "scan_conflicts t2g fd cs (ng0, rn0) = Inr (ng, rn) \<Longrightarrow>
   map_of ng g =
     (if filter (\<lambda>t. t2g t = Some g) (conflict_tx_ids cs) = [] then map_of ng0 g
      else Some ((case map_of ng0 g of None \<Rightarrow> [] | Some vs \<Rightarrow> vs)
                 @ filter (\<lambda>t. t2g t = Some g) (conflict_tx_ids cs)))"
proof (induction cs arbitrary: ng0 rn0)
  case Nil
  then show ?case by (simp add: conflict_tx_ids_def List.map_filter_simps)
next
  case (Cons c cs)
  show ?case
  proof (cases "split_on CHR '':'' c")
    case Nil
    then show ?thesis using Cons.prems by simp
  next
    case (Cons a as)
    note sp = this
    show ?thesis
    proof (cases as)
      case Nil
      then show ?thesis using Cons.prems sp by simp
    next
      case (Cons t rest)
      have id: "conflict_tx_id c = Some t" using sp Cons by (simp add: conflict_tx_id_def)
      have ids: "conflict_tx_ids (c # cs) = t # conflict_tx_ids cs"
        using id by (simp add: conflict_tx_ids_def List.map_filter_simps)
      show ?thesis
      proof (cases "t2g t")
        case None
        then have "scan_conflicts t2g fd cs (ng0, rn0) = Inr (ng, rn)"
          using Cons.prems sp Cons by simp
        from Cons.IH [OF this] show ?thesis using None by (simp add: ids)
      next
        case (Some g')
        let ?rn = "(case fd t of None \<Rightarrow> rn0 | Some tx \<Rightarrow> set_add tx rn0)"
        have "scan_conflicts t2g fd cs (dict_append ng0 g' t, ?rn) = Inr (ng, rn)"
          using Cons.prems sp Cons Some by simp
        from Cons.IH [OF this] show ?thesis
          using Some by (simp add: ids map_of_dict_append)
      qed
    qed
  qed
qed

lemma tx_to_gene_ids_of_snoc:
  "tx_to_gene_ids_of (txs @ [tx]) = (tx_to_gene_ids_of txs)(name tx \<mapsto> name2 tx)"
  by (simp add: tx_to_gene_ids_of_def)

lemma tx_to_gene_ids_of_Nil: "tx_to_gene_ids_of [] = Map.empty"
  by (simp add: tx_to_gene_ids_of_def)

lemma tx_to_gene_ids_of_dom: "dom (tx_to_gene_ids_of txs) = name ` set txs"
  by (induction txs rule: rev_induct)
     (auto simp: tx_to_gene_ids_of_snoc tx_to_gene_ids_of_Nil dom_def split: if_splits)

lemma tx_to_gene_ids_of_Some:
  "distinct (map name txs) \<Longrightarrow>
     (tx_to_gene_ids_of txs n = Some g) = (\<exists>tx \<in> set txs. name tx = n \<and> name2 tx = g)"
proof (induction txs rule: rev_induct)
  case Nil
  then show ?case by (simp add: tx_to_gene_ids_of_def)
next
  case (snoc tx txs)
  then have d: "distinct (map name txs)" "name tx \<notin> name ` set txs" by auto
  show ?case
  proof (cases "n = name tx")
    case True
    then show ?thesis using d(2) by (auto simp: tx_to_gene_ids_of_snoc image_iff)
  next
    case False
    then show ?thesis using snoc.IH [OF d(1)] by (auto simp: tx_to_gene_ids_of_snoc)
  qed
qed

lemma gene_to_tx_ids_lookup:
  "map_of (gene_to_tx_ids_of txs) g =
     (if g \<in> name2 ` set txs then Some (map name (gene_txs txs g)) else None)"
  unfolding gene_to_tx_ids_of_def gene_txs_def
  by (auto simp: map_of_fold_dict_append filter_empty_conv)

lemma gene_to_tx_ids_keys: "set (map fst (gene_to_tx_ids_of txs)) = name2 ` set txs"
  unfolding gene_to_tx_ids_of_def by (simp add: keys_fold_dict_append)

lemma nonoverlapping_gene_ids_of_eq:
  "nonoverlapping_gene_ids_of (gene_to_tx_ids_of txs) ng =
     {g \<in> name2 ` set txs. \<exists>cs. map_of ng g = Some cs \<and> length cs = length (gene_txs txs g)}"
  unfolding nonoverlapping_gene_ids_of_def
  using gene_to_tx_ids_keys [of txs]
  by (auto simp: gene_to_tx_ids_lookup split: option.splits)

lemma nonoverlapping_gene_ids_for_eq:
  assumes "nonoverlapping_gene_ids_for txs fd cs = Inr nids"
  shows "nids = {g \<in> name2 ` set txs.
           filter (\<lambda>t. tx_to_gene_ids_of txs t = Some g) (conflict_tx_ids cs) \<noteq> [] \<and>
           length (filter (\<lambda>t. tx_to_gene_ids_of txs t = Some g) (conflict_tx_ids cs))
             = length (gene_txs txs g)}"
proof -
  obtain ng rn where s: "scan_conflicts (tx_to_gene_ids_of txs) fd cs ([], []) = Inr (ng, rn)"
    and n: "nids = nonoverlapping_gene_ids_of (gene_to_tx_ids_of txs) ng"
    using assms by (auto simp: nonoverlapping_gene_ids_for_def split: sum.splits)
  show ?thesis
    unfolding n nonoverlapping_gene_ids_of_eq scan_conflicts_genes [OF s]
    by (auto split: if_splits)
qed

lemma nonoverlapping_iff_all_in_conflicts:
  assumes dn: "distinct (map name txs)" and dc: "distinct (conflict_tx_ids cs)"
    and r: "nonoverlapping_gene_ids_for txs fd cs = Inr nids"
  shows "g \<in> nids \<longleftrightarrow>
           g \<in> name2 ` set txs \<and> (\<forall>tx \<in> set txs. name2 tx = g \<longrightarrow> name tx \<in> set (conflict_tx_ids cs))"
proof -
  let ?ids = "conflict_tx_ids cs"
  let ?l = "filter (\<lambda>t. tx_to_gene_ids_of txs t = Some g) ?ids"
  let ?N = "name ` set (gene_txs txs g)"
  have dl: "distinct ?l" using dc by simp
  have sl: "set ?l = set ?ids \<inter> ?N"
    using tx_to_gene_ids_of_Some [OF dn] by (auto simp: gene_txs_def)
  have dg: "distinct (map name (gene_txs txs g))"
    using dn unfolding gene_txs_def by (rule distinct_map_filter)
  have lenN: "length (gene_txs txs g) = card ?N"
    using distinct_card [OF dg] by simp
  have lenl: "length ?l = card (set ?ids \<inter> ?N)"
    using distinct_card [OF dl] sl by simp
  have eq: "(length ?l = length (gene_txs txs g)) = (?N \<subseteq> set ?ids)"
  proof
    assume "length ?l = length (gene_txs txs g)"
    then have "card (set ?ids \<inter> ?N) = card ?N" using lenN lenl by simp
    then have "set ?ids \<inter> ?N = ?N" by (intro card_subset_eq) auto
    then show "?N \<subseteq> set ?ids" by blast
  next
    assume "?N \<subseteq> set ?ids"
    then have "set ?ids \<inter> ?N = ?N" by blast
    then show "length ?l = length (gene_txs txs g)" using lenN lenl by simp
  qed
  have ne: "g \<in> name2 ` set txs \<Longrightarrow> ?N \<subseteq> set ?ids \<Longrightarrow> ?l \<noteq> []"
  proof -
    assume "g \<in> name2 ` set txs" "?N \<subseteq> set ?ids"
    then obtain tx where "tx \<in> set txs" "name2 tx = g" by auto
    then have "name tx \<in> set ?ids \<inter> ?N" using \<open>?N \<subseteq> set ?ids\<close> by (auto simp: gene_txs_def)
    then have "name tx \<in> set ?l" by (simp only: sl)
    then have "0 < length ?l" by (rule length_pos_if_in_set)
    then show "?l \<noteq> []" by simp
  qed
  have N: "(?N \<subseteq> set ?ids) = (\<forall>tx \<in> set txs. name2 tx = g \<longrightarrow> name tx \<in> set ?ids)"
    by (auto simp: gene_txs_def)
  show ?thesis
    unfolding nonoverlapping_gene_ids_for_eq [OF r] using eq ne N by auto
qed

text \<open>
  Claim C5. On a well-formed cluster, one whose reference transcripts have different
  identifiers and whose conflict list names every transcript once: a gene is classified as
  nonoverlapping only if every one of its reference transcripts in the cluster, the
  filtered ones in particular, is named in the conflict list; a filtered gene with a
  transcript that the conflict list does not name stays a candidate.
\<close>

theorem nonoverlapping_only_if_all_conflict:
  assumes "distinct (map name txs)" and "distinct (conflict_tx_ids exon_conflicts)"
    and "nonoverlapping_gene_ids_for txs filtered_transmap_dict exon_conflicts = Inr nids"
  shows "(g \<in> nids \<longrightarrow>
            (\<forall>tx \<in> set txs. name2 tx = g \<longrightarrow> name tx \<in> set (conflict_tx_ids exon_conflicts)))
       \<and> (g \<in> filtered_gene_ids
            \<and> (\<exists>tx \<in> set txs. name2 tx = g \<and> name tx \<notin> set (conflict_tx_ids exon_conflicts))
          \<longrightarrow> g \<in> filtered_gene_ids - nids)"
  using nonoverlapping_iff_all_in_conflicts [OF assms, of g] by blast

theorem nonoverlapping_only_if_all_conflict_witness:
  "distinct (map name [ex_txA, ex_txA2, ex_txC])
   \<and> distinct (conflict_tx_ids [''tm.gp:A1'', ''tm.gp:C1''])
   \<and> nonoverlapping_gene_ids_for [ex_txA, ex_txA2, ex_txC] ex_filtered_A12
         [''tm.gp:A1'', ''tm.gp:C1''] = Inr {''C''}
   \<and> ''A'' \<in> {''A'', ''C''} - {''C''}
   \<and> name ex_txC \<in> set (conflict_tx_ids [''tm.gp:A1'', ''tm.gp:C1''])"
proof -
  have h1: "distinct (map name [ex_txA, ex_txA2, ex_txC])" by code_simp
  have h2: "distinct (conflict_tx_ids [''tm.gp:A1'', ''tm.gp:C1''])" by code_simp
  have h3: "nonoverlapping_gene_ids_for [ex_txA, ex_txA2, ex_txC] ex_filtered_A12
         [''tm.gp:A1'', ''tm.gp:C1''] = Inr {''C''}" by code_simp
  have h4: "''A'' \<in> {''A'', ''C''}
     \<and> (\<exists>tx \<in> set [ex_txA, ex_txA2, ex_txC]. name2 tx = ''A''
           \<and> name tx \<notin> set (conflict_tx_ids [''tm.gp:A1'', ''tm.gp:C1'']))" by code_simp
  have h5: "''C'' \<in> {''C''}" "ex_txC \<in> set [ex_txA, ex_txA2, ex_txC]" "name2 ex_txC = ''C''"
    by (simp_all add: ex_txC_def)
  have c1: "''A'' \<in> {''A'', ''C''} - {''C''}"
    using nonoverlapping_only_if_all_conflict [OF h1 h2 h3, of "''A''" "{''A'', ''C''}"] h4
    by blast
  have c2: "name ex_txC \<in> set (conflict_tx_ids [''tm.gp:A1'', ''tm.gp:C1''])"
    using nonoverlapping_only_if_all_conflict [OF h1 h2 h3, of "''C''" "{''A'', ''C''}"] h5
    by blast
  show ?thesis using h1 h2 h3 c1 c2 by blast
qed

text \<open>
  Claim C6, as amended. The conflict entries that determine the nonoverlapping genes are
  those that name a reference transcript of the cluster, a key of \<^verbatim>\<open>tx_to_gene_ids\<close>: the
  other entries can be removed without changing the result, and so can the entries with a
  de novo identifier, which name no reference transcript of the cluster.
\<close>

theorem conflicts_used_name_cluster_references:
  "(nonoverlapping_gene_ids_for txs filtered_transmap_dict exon_conflicts = Inr nids
      \<longrightarrow> nonoverlapping_gene_ids_for txs filtered_transmap_dict
            (filter (names_cluster_reference (tx_to_gene_ids_of txs)) exon_conflicts) = Inr nids)
   \<and> (nonoverlapping_gene_ids_for txs filtered_transmap_dict exon_conflicts = Inr nids
        \<and> (\<forall>c \<in> set exon_conflicts. is_denovo_conflict c
               \<longrightarrow> \<not> names_cluster_reference (tx_to_gene_ids_of txs) c)
      \<longrightarrow> nonoverlapping_gene_ids_for txs filtered_transmap_dict
            (filter (\<lambda>c. \<not> is_denovo_conflict c) exon_conflicts) = Inr nids)"
proof -
  have drop: "nonoverlapping_gene_ids_for txs filtered_transmap_dict (filter Q exon_conflicts) = Inr nids"
    if a: "nonoverlapping_gene_ids_for txs filtered_transmap_dict exon_conflicts = Inr nids"
      and b: "\<forall>c \<in> set exon_conflicts. \<not> Q c \<longrightarrow> \<not> names_cluster_reference (tx_to_gene_ids_of txs) c"
    for Q
  proof -
    obtain res where res: "scan_conflicts (tx_to_gene_ids_of txs) filtered_transmap_dict
        exon_conflicts ([], []) = Inr res"
      using a by (auto simp: nonoverlapping_gene_ids_for_def split: sum.splits)
    from scan_conflicts_drop [OF res b] a res show ?thesis
      by (simp add: nonoverlapping_gene_ids_for_def)
  qed
  show ?thesis
    using drop [of "names_cluster_reference (tx_to_gene_ids_of txs)"]
      drop [of "\<lambda>c. \<not> is_denovo_conflict c"]
    by blast
qed

theorem conflicts_used_name_cluster_references_witness:
  "nonoverlapping_gene_ids_for [ex_txA, ex_txC] ex_filtered_AC
       [''tm.gp:C1'', ''denovo.gp:augPB-2''] = Inr {''C''}
   \<and> nonoverlapping_gene_ids_for [ex_txA, ex_txC] ex_filtered_AC
       (filter (names_cluster_reference (tx_to_gene_ids_of [ex_txA, ex_txC]))
          [''tm.gp:C1'', ''denovo.gp:augPB-2'']) = Inr {''C''}
   \<and> nonoverlapping_gene_ids_for [ex_txA, ex_txC] ex_filtered_AC
       (filter (\<lambda>c. \<not> is_denovo_conflict c) [''tm.gp:C1'', ''denovo.gp:augPB-2'']) = Inr {''C''}"
proof -
  have h1: "nonoverlapping_gene_ids_for [ex_txA, ex_txC] ex_filtered_AC
       [''tm.gp:C1'', ''denovo.gp:augPB-2''] = Inr {''C''}" by code_simp
  have h2: "\<forall>c \<in> set [''tm.gp:C1'', ''denovo.gp:augPB-2'']. is_denovo_conflict c
               \<longrightarrow> \<not> names_cluster_reference (tx_to_gene_ids_of [ex_txA, ex_txC]) c"
    by code_simp
  show ?thesis
    using h1 h2 conflicts_used_name_cluster_references
      [of "[ex_txA, ex_txC]" ex_filtered_AC "[''tm.gp:C1'', ''denovo.gp:augPB-2'']" "{''C''}"]
    by blast
qed

text \<open>
  Claim C6 as stated fails: the entry for the reference transcript C1, which is not a de
  novo entry, makes gene C nonoverlapping; the de novo entries alone give no nonoverlapping
  gene, and adding a de novo entry changes nothing.
\<close>

theorem reference_conflict_used_counterexample:
  "\<not> is_denovo_conflict ''tm.gp:C1''
   \<and> nonoverlapping_gene_ids_for [ex_txA, ex_txC] ex_filtered_AC [''tm.gp:C1''] = Inr {''C''}
   \<and> nonoverlapping_gene_ids_for [ex_txA, ex_txC] ex_filtered_AC
        (filter is_denovo_conflict [''tm.gp:C1'']) = Inr {}
   \<and> is_denovo_conflict ''denovo.gp:augPB-2''
   \<and> nonoverlapping_gene_ids_for [ex_txA, ex_txC] ex_filtered_AC
        [''tm.gp:C1'', ''denovo.gp:augPB-2''] = Inr {''C''}"
  by code_simp

section \<open>The claims about the emitted rows\<close>

subsection \<open>The overlap of a gene and the genes that the alternatives are taken from\<close>

lemma gene_overlap_eq:
  "gene_overlap T dn (gene_to_tx_ids_of txs) ud g =
     (if g \<in> name2 ` set txs then calculate_tx_overlap T dn (map name (gene_txs txs g)) ud
      else Inl KeyError)"
  by (simp add: gene_overlap_def gene_to_tx_ids_lookup)

lemma gene_txs_set: "set xs = set ys \<Longrightarrow> set (gene_txs xs g) = set (gene_txs ys g)"
  by (simp add: gene_txs_def)

lemma set_add_distinct: "distinct xs \<Longrightarrow> distinct (set_add x xs)"
  by (simp add: set_add_def)

lemma set_set_add: "set (set_add x xs) = insert x (set xs)"
  by (auto simp: set_add_def)

lemma shared_length_nonneg: "0 \<le> shared_length A B"
  unfolding shared_length_def
  by (intro sum_list_nonneg) (auto simp: intersection_length_def intro!: sum_list_nonneg)

lemma asymmetricOverlap_nonneg: "0 \<le> asymmetricOverlap A B"
proof -
  have t: "0 \<le> total_length A"
    unfolding total_length_def by (intro sum_list_nonneg) (auto simp: interval_length_def)
  have "0 \<le> (of_int (shared_length A B) :: rat) / of_int (total_length A)"
    using shared_length_nonneg [of A B] t by simp
  then have "0 \<le> round_to_double (of_int (shared_length A B) / of_int (total_length A))"
    by (intro round_to_double_above_double) (simp_all add: round_to_double_def)
  then show ?thesis by (simp add: asymmetricOverlap_def format_ratio_def)
qed

lemma spec_tools_nonneg: "\<forall>a b. 0 \<le> calculate_bed12_asymmetric_jaccard spec_tools a b"
  by (simp add: spec_tools_def asymmetricOverlap_nonneg)

lemma gene_overlap_best:
  assumes "set ys = set txs" 
    and "\<forall>a b. 0 \<le> calculate_bed12_asymmetric_jaccard T a b"
    and "gene_overlap T dn (gene_to_tx_ids_of ys) ud g = Inr ov"
  shows "ov = best_asymmetric_overlap T dn ud txs g"
proof -
  let ?f = "\<lambda>n. calculate_bed12_asymmetric_jaccard T (exon_intervals dn) (exon_intervals (the (ud n)))"
  let ?S = "?f ` set (map name (gene_txs ys g))"
  have g: "g \<in> name2 ` set ys" using assms(3) by (auto simp: gene_overlap_eq split: if_splits)
  then have ne: "?S \<noteq> {}" by (auto simp: gene_txs_def)
  have "calculate_tx_overlap T dn (map name (gene_txs ys g)) ud = Inr ov"
    using assms(3) g by (simp add: gene_overlap_eq)
  then have "(if \<forall>n \<in> set (map name (gene_txs ys g)). ud n \<noteq> None
               then Inr (Max (insert 0 ?S)) else Inl KeyError) = Inr ov"
    by (simp only: calculate_tx_overlap_eq)
  then have "Inr (Max (insert 0 ?S)) = (Inr ov :: py_error + rat)"
    by (metis sum.distinct(1))
  then have ov: "ov = Max (insert 0 ?S)" by (simp only: sum.inject)
  have "Max (insert 0 ?S) = max 0 (Max ?S)" using ne by (intro Max_insert) simp_all
  moreover have "0 \<le> Max ?S" using ne assms(2) by (subst Max_ge_iff) auto
  ultimately have "ov = Max ?S" using ov by simp
  also have "?S = set (map (\<lambda>tx. calculate_bed12_asymmetric_jaccard T (exon_intervals dn)
                          (exon_intervals (the (ud (name tx))))) (gene_txs txs g))"
    using gene_txs_set [OF assms(1), of g] by (simp add: image_image)
  finally show ?thesis by (simp only: best_asymmetric_overlap_def)
qed

lemma emit_record_overlaps:
  assumes "emit_record T dn g2t ud md pool d = Inr r" and "g \<in> pool" and "Some g \<noteq> fst d"
  shows "\<exists>ov. gene_overlap T dn g2t ud g = Inr ov"
proof -
  define alts where "alts = pool - (case fst d of None \<Rightarrow> {} | Some g \<Rightarrow> {g})"
  have g: "g \<in> alts" using assms(2,3) by (auto simp: alts_def split: option.splits)
  have "emit_record T dn g2t ud md pool d =
     (case filtered_alternative_gene_ids_of T dn g2t ud md alts of
        Inl e \<Rightarrow> Inl e
      | Inr fa \<Rightarrow>
          Inr \<lparr> TranscriptId = name dn, AssignedGeneId = fst d,
             AlternativeGeneIds = (if card fa > 0 then Some (py_join '','' (sorted_list_of_set fa)) else None),
             ResolutionMethod = (if card fa = 0 then None else snd d) \<rparr>)"
    by (simp only: emit_record_def Let_def alts_def)
  then have "\<not> isl (filtered_alternative_gene_ids_of T dn g2t ud md alts)"
    using assms(1) by (auto split: sum.splits)
  then have "\<not> (\<exists>g \<in> alts. isl (gene_overlap T dn g2t ud g))"
    by (auto simp: filtered_alternative_gene_ids_of_def split: if_splits)
  then have "\<not> isl (gene_overlap T dn g2t ud g)" using g by blast
  then show ?thesis by (cases "gene_overlap T dn g2t ud g") auto
qed

lemma passing_alternatives_by_overlap:
  assumes "set ys = set txs"
    and "\<forall>a b. 0 \<le> calculate_bed12_asymmetric_jaccard T a b"
    and "emit_record T dn (gene_to_tx_ids_of ys) ud md pool d = Inr r"
  shows "passing_alternatives T dn (gene_to_tx_ids_of ys) ud md pool (fst d)
         = alternatives_by_overlap T dn ud txs md pool (fst d)"
proof -
  have "(\<exists>ov. gene_overlap T dn (gene_to_tx_ids_of ys) ud g = Inr ov \<and> ov > md)
        = (best_asymmetric_overlap T dn ud txs g > md)" if g: "g \<in> pool" "Some g \<noteq> fst d" for g
  proof -
    obtain ov where ov: "gene_overlap T dn (gene_to_tx_ids_of ys) ud g = Inr ov"
      using emit_record_overlaps [OF assms(3) g] by blast
    show ?thesis using gene_overlap_best [OF assms(1,2) ov] ov by simp
  qed
  then show ?thesis
    unfolding passing_alternatives_def alternatives_by_overlap_def by blast
qed

lemma scan_conflicts_txs:
  "scan_conflicts t2g fd cs (ng0, rn0) = Inr (ng, rn) \<Longrightarrow>
   set rn = set rn0 \<union> {tx. \<exists>t \<in> set (conflict_tx_ids cs). t2g t \<noteq> None \<and> fd t = Some tx}"
proof (induction cs arbitrary: ng0 rn0)
  case Nil
  then show ?case by (simp add: conflict_tx_ids_def List.map_filter_simps)
next
  case (Cons c cs)
  show ?case
  proof (cases "split_on CHR '':'' c")
    case Nil
    then show ?thesis using Cons.prems by simp
  next
    case (Cons a as)
    note sp = this
    show ?thesis
    proof (cases as)
      case Nil
      then show ?thesis using Cons.prems sp by simp
    next
      case (Cons t rest)
      have id: "conflict_tx_id c = Some t" using sp Cons by (simp add: conflict_tx_id_def)
      have ids: "conflict_tx_ids (c # cs) = t # conflict_tx_ids cs"
        using id by (simp add: conflict_tx_ids_def List.map_filter_simps)
      show ?thesis
      proof (cases "t2g t")
        case None
        then have "scan_conflicts t2g fd cs (ng0, rn0) = Inr (ng, rn)"
          using Cons.prems sp Cons by simp
        from Cons.IH [OF this] show ?thesis unfolding ids using None by auto
      next
        case (Some g)
        let ?rn = "(case fd t of None \<Rightarrow> rn0 | Some tx \<Rightarrow> set_add tx rn0)"
        have "scan_conflicts t2g fd cs (dict_append ng0 g t, ?rn) = Inr (ng, rn)"
          using Cons.prems sp Cons Some by simp
        from Cons.IH [OF this] show ?thesis unfolding ids using Some
          by (auto simp: set_set_add split: option.splits)
      qed
    qed
  qed
qed

lemma refiltered_genes:
  assumes "partition_inv fd ud U F" and "set ys = set (F @ U)"
    and "scan_conflicts (tx_to_gene_ids_of ys) fd cs ([], []) = Inr (ng, rn)"
  shows "filter (\<lambda>tx. tx \<notin> set rn) F = filter (\<lambda>tx. name tx \<notin> set (conflict_tx_ids cs)) F"
proof (rule filter_cong [OF refl])
  fix tx assume tx: "tx \<in> set F"
  have rn: "set rn = {tx. \<exists>t \<in> set (conflict_tx_ids cs). tx_to_gene_ids_of ys t \<noteq> None \<and> fd t = Some tx}"
    using scan_conflicts_txs [OF assms(3)] by simp
  have dom: "\<And>t. (tx_to_gene_ids_of ys t \<noteq> None) = (t \<in> name ` set (F @ U))"
    using tx_to_gene_ids_of_dom [of ys] assms(2) by (auto simp: dom_def)
  have fdtx: "fd (name tx) = Some tx" using assms(1) tx by (simp add: partition_inv_def)
  show "(tx \<notin> set rn) = (name tx \<notin> set (conflict_tx_ids cs))"
  proof -
    have "name tx \<in> set (conflict_tx_ids cs) \<Longrightarrow> tx \<in> set rn"
      unfolding rn using fdtx tx dom by auto
    moreover have "name tx \<in> set (conflict_tx_ids cs)" if inrn: "tx \<in> set rn"
    proof -
      obtain t where t: "t \<in> set (conflict_tx_ids cs)" "t \<in> name ` set (F @ U)" "fd t = Some tx"
        using inrn unfolding rn dom by blast
      then obtain t' where t': "t' \<in> set F \<union> set U" "name t' = t" by auto
      have "t' \<in> set F" using t' t(3) assms(1) by (auto simp: partition_inv_def)
      then have "fd t = Some t'" using assms(1) t' by (auto simp: partition_inv_def)
      then have "t' = tx" using t(3) by simp
      then show ?thesis using t(1) t'(2) by simp
    qed
    ultimately show ?thesis by blast
  qed
qed

lemma iterated_alternative_genes_eq:
  assumes "partition_inv fd ud U F" and "\<forall>xs. set (enum xs) = set xs"
    and "exon_conflict_narrowing enum fd df F U dn = Inr nw"
  shows "iterated_alternative_genes U nw = alternative_source_genes df F U dn"
proof (cases "exon_conflict_field df (name dn)")
  case None
  then show ?thesis using assms(3)
    by (simp add: exon_conflict_narrowing_def iterated_alternative_genes_def alternative_source_genes_def)
next
  case (Some c)
  then obtain ng rn where s: "scan_conflicts (tx_to_gene_ids_of (enum F @ enum U)) fd
       (parse_exon_conflicts c) ([], []) = Inr (ng, rn)"
    and nw: "nw = Some (nonoverlapping_gene_ids_of (gene_to_tx_ids_of (enum F @ enum U)) ng,
                 filter (\<lambda>tx. tx \<notin> set rn) F)"
    using assms(3) by (auto simp: exon_conflict_narrowing_def split: sum.splits prod.splits)
  have "set (enum F @ enum U) = set (F @ U)" using assms(2) by simp
  from refiltered_genes [OF assms(1) this s] show ?thesis
    unfolding nw using Some
    by (simp add: iterated_alternative_genes_def alternative_source_genes_def)
qed

subsection \<open>The claims\<close>

text \<open>
  Claim C3, as amended. When every pair of different candidate genes has footprints whose
  Jaccard value exceeds \<^verbatim>\<open>tm_jaccard_distance\<close>, \<^verbatim>\<open>resolve_multiple_genes\<close> returns no gene
  with the method \<^verbatim>\<open>badAnnotOrTm\<close>, whatever the scores of the de novo transcript. For a de
  novo transcript with two candidate genes or more, when this holds of the transcripts handed
  to \<^verbatim>\<open>resolve_multiple_genes\<close>, the emitted row has no assigned gene, and its method is
  \<^verbatim>\<open>badAnnotOrTm\<close> if the row has alternative genes and null if it has none.
\<close>

theorem bad_annotation_when_all_pairs_exceed:
  "(all_gene_pairs_exceed T overlapping_tm_txs tm_jaccard_distance
      \<longrightarrow> resolve_multiple_genes T denovo_tx overlapping_tm_txs min_distance tm_jaccard_distance
            = Inr (None, badAnnotOrTm))
   \<and> (exon_conflict_narrowing enum filtered_transmap_dict cluster_df filtered_txs unfiltered_txs
          denovo_tx = Inr nw
        \<and> 2 \<le> card (candidate_gene_ids filtered_txs nw)
        \<and> all_gene_pairs_exceed T (enum (disambiguation_pool filtered_txs nw)) tm_jaccard_distance
        \<and> resolve_denovo_tx T enum filtered_transmap_dict unfiltered_transmap_dict cluster_df
            min_distance tm_jaccard_distance filtered_txs unfiltered_txs denovo_tx = Inr r
      \<longrightarrow> AssignedGeneId r = None
          \<and> ResolutionMethod r =
              (if AlternativeGeneIds r = None then None else Some badAnnotOrTm))"
proof (intro conjI impI)
  assume "all_gene_pairs_exceed T overlapping_tm_txs tm_jaccard_distance"
  then show "resolve_multiple_genes T denovo_tx overlapping_tm_txs min_distance tm_jaccard_distance
            = Inr (None, badAnnotOrTm)"
    by (rule all_pairs_resolve_multiple_genes)
next
  let ?g2t = "gene_to_tx_ids_of (enum filtered_txs @ enum unfiltered_txs)"
  assume a: "exon_conflict_narrowing enum filtered_transmap_dict cluster_df filtered_txs unfiltered_txs
          denovo_tx = Inr nw
        \<and> 2 \<le> card (candidate_gene_ids filtered_txs nw)
        \<and> all_gene_pairs_exceed T (enum (disambiguation_pool filtered_txs nw)) tm_jaccard_distance
        \<and> resolve_denovo_tx T enum filtered_transmap_dict unfiltered_transmap_dict cluster_df
            min_distance tm_jaccard_distance filtered_txs unfiltered_txs denovo_tx = Inr r"
  from a have a1: "exon_conflict_narrowing enum filtered_transmap_dict cluster_df filtered_txs
          unfiltered_txs denovo_tx = Inr nw"
    and a4: "resolve_denovo_tx T enum filtered_transmap_dict unfiltered_transmap_dict cluster_df
            min_distance tm_jaccard_distance filtered_txs unfiltered_txs denovo_tx = Inr r"
    by simp_all
  have "primary_decision T enum unfiltered_transmap_dict min_distance tm_jaccard_distance
          filtered_txs ?g2t denovo_tx nw
        = resolve_pool T enum denovo_tx (disambiguation_pool filtered_txs nw) min_distance
            tm_jaccard_distance"
    using a by (intro primary_decision_multiple) simp
  also have "\<dots> = Inr (None, Some badAnnotOrTm)"
    using a by (simp add: resolve_pool_def all_pairs_resolve_multiple_genes)
  finally have pd: "primary_decision T enum unfiltered_transmap_dict min_distance
          tm_jaccard_distance filtered_txs ?g2t denovo_tx nw = Inr (None, Some badAnnotOrTm)" .
  have "emit_record T denovo_tx ?g2t unfiltered_transmap_dict min_distance
                  (iterated_alternative_genes unfiltered_txs nw) (None, Some badAnnotOrTm) = Inr r"
    using a4 by (simp only: resolve_denovo_tx_eq a1 pd sum.case)
  from emit_record_fields(2,3,4) [OF iterated_alternative_genes_finite this]
  show "AssignedGeneId r = None" 
    and "ResolutionMethod r = (if AlternativeGeneIds r = None then None else Some badAnnotOrTm)"
    by (auto split: if_splits)
qed

theorem bad_annotation_when_all_pairs_exceed_witness:
  "all_gene_pairs_exceed spec_tools [ex_txA, ex_txB] (1 / 4)
   \<and> resolve_multiple_genes spec_tools ex_denovo [ex_txA, ex_txB] ex_min_distance (1 / 4)
       = Inr (None, badAnnotOrTm)
   \<and> exon_conflict_narrowing id ex_filtered_AB ex_rows_AB [ex_txA, ex_txB] [ex_txD] ex_denovo = Inr None
   \<and> 2 \<le> card (candidate_gene_ids [ex_txA, ex_txB] None)
   \<and> resolve_denovo_tx spec_tools id ex_filtered_AB ex_unfiltered_dict ex_rows_AB ex_min_distance (1 / 4)
         [ex_txA, ex_txB] [ex_txD] ex_denovo
       = Inr \<lparr> TranscriptId = ''augPB-1'', AssignedGeneId = None, AlternativeGeneIds = Some ''D'',
               ResolutionMethod = Some badAnnotOrTm \<rparr>"
proof -
  have h1: "all_gene_pairs_exceed spec_tools [ex_txA, ex_txB] (1 / 4)" by code_simp
  have h2: "exon_conflict_narrowing id ex_filtered_AB ex_rows_AB [ex_txA, ex_txB] [ex_txD] ex_denovo
              = Inr None" by code_simp
  have h3: "2 \<le> card (candidate_gene_ids [ex_txA, ex_txB] None)" by code_simp
  have h4: "all_gene_pairs_exceed spec_tools (id (disambiguation_pool [ex_txA, ex_txB] None)) (1 / 4)"
    by code_simp
  have h5: "resolve_denovo_tx spec_tools id ex_filtered_AB ex_unfiltered_dict ex_rows_AB ex_min_distance (1 / 4)
         [ex_txA, ex_txB] [ex_txD] ex_denovo
       = Inr \<lparr> TranscriptId = ''augPB-1'', AssignedGeneId = None, AlternativeGeneIds = Some ''D'',
               ResolutionMethod = Some badAnnotOrTm \<rparr>" by code_simp
  from bad_annotation_when_all_pairs_exceed
    [where T = spec_tools and overlapping_tm_txs = "[ex_txA, ex_txB]"
       and tm_jaccard_distance = "1 / 4" and denovo_tx = ex_denovo and min_distance = ex_min_distance
       and enum = id and filtered_transmap_dict = ex_filtered_AB and cluster_df = ex_rows_AB
       and filtered_txs = "[ex_txA, ex_txB]" and unfiltered_txs = "[ex_txD]" and nw = None
       and unfiltered_transmap_dict = ex_unfiltered_dict
       and r = "\<lparr> TranscriptId = ''augPB-1'', AssignedGeneId = None,
                  AlternativeGeneIds = Some ''D'', ResolutionMethod = Some badAnnotOrTm \<rparr>"]
  have "resolve_multiple_genes spec_tools ex_denovo [ex_txA, ex_txB] ex_min_distance (1 / 4)
          = Inr (None, badAnnotOrTm)
        \<and> AssignedGeneId \<lparr> TranscriptId = ''augPB-1'', AssignedGeneId = None,
                  AlternativeGeneIds = Some ''D'', ResolutionMethod = Some badAnnotOrTm \<rparr> = None"
    using h1 h2 h3 h4 h5 by blast
  then show ?thesis using h1 h2 h3 h5 by simp
qed

text \<open>
  Claim C3 as stated fails: the filtered genes A and B have footprints with Jaccard value
  1/2, above the threshold 1/4, but the cluster has no other reference gene, so the row has
  no alternative genes and lines 201 and 202 reset the method to null.
\<close>

theorem bad_annotation_downgraded_counterexample:
  "2 \<le> card (name2 ` set [ex_txA, ex_txB])
   \<and> all_gene_pairs_exceed spec_tools [ex_txA, ex_txB] (1 / 4)
   \<and> assign_parents spec_tools id ex_filtered_AB ex_unfiltered_dict ex_denovo_dict ex_rows_AB
         ex_min_distance (1 / 4)
       = Inr [\<lparr> TranscriptId = ''augPB-1'', AssignedGeneId = None, AlternativeGeneIds = None,
                ResolutionMethod = None \<rparr>]"
  by code_simp



text \<open>
  Claim C7, as amended. The alternative genes of an emitted row are exactly the genes,
  other than the assigned gene, whose best asymmetric overlap against the de novo
  transcript strictly exceeds \<^verbatim>\<open>min_distance\<close>, among these: without exon conflicts, the genes
  of the reference transcripts of the cluster that the filtered dictionary lacks; with exon
  conflicts, the genes of the filtered transcripts of the cluster that the conflict list
  does not name. The field is null when there is none and otherwise their comma-joined
  sorted list, which has no duplicates. No alternative gene is the assigned gene or has an
  overlap of at most \<^verbatim>\<open>min_distance\<close>.
\<close>

theorem alternative_gene_ids_exact:
  assumes "\<forall>xs. set (enum xs) = set xs"
    and "\<forall>a b. 0 \<le> calculate_bed12_asymmetric_jaccard T a b"
    and "partition_inv filtered_transmap_dict unfiltered_transmap_dict unfiltered_txs filtered_txs"
    and "resolve_denovo_tx T enum filtered_transmap_dict unfiltered_transmap_dict cluster_df
           min_distance tm_jaccard_distance filtered_txs unfiltered_txs denovo_tx = Inr r"
    and "S = alternatives_by_overlap T denovo_tx unfiltered_transmap_dict
               (filtered_txs @ unfiltered_txs) min_distance
               (alternative_source_genes cluster_df filtered_txs unfiltered_txs denovo_tx)
               (AssignedGeneId r)"
  shows "AlternativeGeneIds r =
           (if S = {} then None else Some (py_join '','' (sorted_list_of_set S)))
       \<and> sorted (sorted_list_of_set S) \<and> distinct (sorted_list_of_set S)
       \<and> set (sorted_list_of_set S) = S
       \<and> (\<forall>g \<in> S. Some g \<noteq> AssignedGeneId r
            \<and> \<not> best_asymmetric_overlap T denovo_tx unfiltered_transmap_dict
                  (filtered_txs @ unfiltered_txs) g \<le> min_distance)"
proof -
  let ?ys = "enum filtered_txs @ enum unfiltered_txs"
  let ?g2t = "gene_to_tx_ids_of ?ys"
  obtain nw d where nw: "exon_conflict_narrowing enum filtered_transmap_dict cluster_df filtered_txs
        unfiltered_txs denovo_tx = Inr nw"
    and d: "emit_record T denovo_tx ?g2t unfiltered_transmap_dict min_distance
                  (iterated_alternative_genes unfiltered_txs nw) d = Inr r"
    using assms(4) by (auto simp: resolve_denovo_tx_eq split: sum.splits)
  have s: "set ?ys = set (filtered_txs @ unfiltered_txs)" using assms(1) by simp
  have pool: "iterated_alternative_genes unfiltered_txs nw
     = alternative_source_genes cluster_df filtered_txs unfiltered_txs denovo_tx"
    by (rule iterated_alternative_genes_eq [OF assms(3,1) nw])
  note f = emit_record_fields [OF iterated_alternative_genes_finite d]
  have "passing_alternatives T denovo_tx ?g2t unfiltered_transmap_dict min_distance
          (iterated_alternative_genes unfiltered_txs nw) (fst d)
        = alternatives_by_overlap T denovo_tx unfiltered_transmap_dict
            (filtered_txs @ unfiltered_txs) min_distance
            (iterated_alternative_genes unfiltered_txs nw) (fst d)"
    by (rule passing_alternatives_by_overlap [OF s assms(2) d])
  then have S: "S = passing_alternatives T denovo_tx ?g2t unfiltered_transmap_dict min_distance
                 (iterated_alternative_genes unfiltered_txs nw) (fst d)"
    by (simp only: assms(5) f(2) pool)
  have fin: "finite S"
    unfolding S passing_alternatives_def using iterated_alternative_genes_finite by simp
  have "AlternativeGeneIds r = (if S = {} then None else Some (py_join '','' (sorted_list_of_set S)))"
    using f(3) unfolding S .
  moreover have "\<forall>g \<in> S. Some g \<noteq> AssignedGeneId r
            \<and> \<not> best_asymmetric_overlap T denovo_tx unfiltered_transmap_dict
                  (filtered_txs @ unfiltered_txs) g \<le> min_distance"
    unfolding assms(5) alternatives_by_overlap_def by auto
  ultimately show ?thesis using fin by simp
qed

theorem alternative_gene_ids_exact_witness:
  "(\<forall>xs :: transcript list. set (id xs) = set xs)
   \<and> (\<forall>a b. 0 \<le> calculate_bed12_asymmetric_jaccard spec_tools a b)
   \<and> partition_inv ex_filtered_PQ ex_unfiltered_PQ [ex_txQ2] [ex_txP, ex_txQ]
   \<and> resolve_denovo_tx spec_tools id ex_filtered_PQ ex_unfiltered_PQ ex_rows_PQ ex_min_distance
         (1 / 4) [ex_txP, ex_txQ] [ex_txQ2] ex_denovo_full
       = Inr \<lparr> TranscriptId = ''augPB-4'', AssignedGeneId = None,
               AlternativeGeneIds = Some ''P'', ResolutionMethod = Some ambiguousOrFusion \<rparr>
   \<and> alternative_source_genes ex_rows_PQ [ex_txP, ex_txQ] [ex_txQ2] ex_denovo_full = {''P''}
   \<and> alternatives_by_overlap spec_tools ex_denovo_full ex_unfiltered_PQ ([ex_txP, ex_txQ] @ [ex_txQ2])
         ex_min_distance {''P''} None = {''P''}
   \<and> py_join '','' (sorted_list_of_set {''P''}) = ''P''"
proof -
  let ?r = "\<lparr> TranscriptId = ''augPB-4'', AssignedGeneId = None,
               AlternativeGeneIds = Some ''P'', ResolutionMethod = Some ambiguousOrFusion \<rparr>"
  have e: "\<forall>xs :: transcript list. set (id xs) = set xs" by simp
  have n: "\<forall>a b. 0 \<le> calculate_bed12_asymmetric_jaccard spec_tools a b"
    by (simp add: spec_tools_def asymmetricOverlap_nonneg)
  have a1: "partition_inv ex_filtered_PQ ex_unfiltered_PQ [ex_txQ2] [ex_txP, ex_txQ]" by code_simp
  have a2: "resolve_denovo_tx spec_tools id ex_filtered_PQ ex_unfiltered_PQ ex_rows_PQ ex_min_distance
         (1 / 4) [ex_txP, ex_txQ] [ex_txQ2] ex_denovo_full = Inr ?r" by code_simp
  have a3: "alternative_source_genes ex_rows_PQ [ex_txP, ex_txQ] [ex_txQ2] ex_denovo_full = {''P''}"
    by code_simp
  have a4: "alternatives_by_overlap spec_tools ex_denovo_full ex_unfiltered_PQ
         ([ex_txP, ex_txQ] @ [ex_txQ2]) ex_min_distance {''P''} None = {''P''}"
    unfolding alternatives_by_overlap_def by code_simp
  have a5: "{''P''} = alternatives_by_overlap spec_tools ex_denovo_full ex_unfiltered_PQ
         ([ex_txP, ex_txQ] @ [ex_txQ2]) ex_min_distance
         (alternative_source_genes ex_rows_PQ [ex_txP, ex_txQ] [ex_txQ2] ex_denovo_full)
         (AssignedGeneId ?r)"
    unfolding a3 using a4 by simp
  have "AlternativeGeneIds ?r = Some (py_join '','' (sorted_list_of_set {''P''}))"
    using alternative_gene_ids_exact [OF e n a1 a2 a5] by simp
  then have "py_join '','' (sorted_list_of_set {''P''}) = ''P''" by simp
  then show ?thesis using e n a1 a2 a3 a4 by simp
qed

text \<open>
  Claim C7 as stated fails. With exon conflicts: the conflict list names Q1 and not Q2,
  so no gene is nonoverlapping and the candidate genes are P and Q; both have the overlap
  0.6 and none is assigned, but the alternative genes are those of the filtered transcripts
  that the list does not name, P alone. Without exon conflicts: the reference genes of the
  cluster are A and B, both filtered; A has the overlap 1 and is not assigned, but the
  cluster has no transcript that the filtered dictionary lacks, so the row has no
  alternative genes.
\<close>

theorem alternatives_not_from_specified_pool_counterexample:
  "assign_parents spec_tools id ex_filtered_PQ ex_unfiltered_PQ ex_denovo_dict ex_rows_PQ
       ex_min_distance (1 / 4)
     = Inr [\<lparr> TranscriptId = ''augPB-4'', AssignedGeneId = None,
               AlternativeGeneIds = Some ''P'', ResolutionMethod = Some ambiguousOrFusion \<rparr>]
   \<and> partition_cluster ex_filtered_PQ ex_unfiltered_PQ ex_denovo_dict
        [(''P1'', False), (''Q1'', False), (''Q2'', False), (''augPB-4'', True)] ([], [], [])
       = Inr ([ex_txQ2], [ex_txP, ex_txQ], [ex_denovo_full])
   \<and> exon_conflict_narrowing id ex_filtered_PQ ex_rows_PQ [ex_txP, ex_txQ] [ex_txQ2] ex_denovo_full
       = Inr (Some ({}, [ex_txP]))
   \<and> specified_alternative_pool [ex_txP, ex_txQ] [ex_txQ2] (Some ({}, [ex_txP])) = {''P'', ''Q''}
   \<and> best_asymmetric_overlap spec_tools ex_denovo_full ex_unfiltered_PQ
        ([ex_txP, ex_txQ] @ [ex_txQ2]) ''Q'' = round_to_double (3 / 5)
   \<and> round_to_double (3 / 5) > ex_min_distance
   \<and> assign_parents spec_tools id ex_filtered_AB ex_unfiltered_dict ex_denovo_dict ex_rows_AB
       ex_min_distance (1 / 4)
     = Inr [\<lparr> TranscriptId = ''augPB-1'', AssignedGeneId = None,
               AlternativeGeneIds = None, ResolutionMethod = None \<rparr>]
   \<and> exon_conflict_narrowing id ex_filtered_AB ex_rows_AB [ex_txA, ex_txB] [] ex_denovo = Inr None
   \<and> specified_alternative_pool [ex_txA, ex_txB] [] None = {''A'', ''B''}
   \<and> best_asymmetric_overlap spec_tools ex_denovo ex_unfiltered_dict ([ex_txA, ex_txB] @ []) ''A'' = 1
   \<and> (1 :: rat) > ex_min_distance"
  by code_simp

text \<open>
  Claim C8. Every row that \<^verbatim>\<open>assign_parents\<close> returns is coherent: a non-null method comes
  with non-null alternative genes, the method \<^verbatim>\<open>rescued\<close> with an assigned gene, and the
  methods \<^verbatim>\<open>badAnnotOrTm\<close> and \<^verbatim>\<open>ambiguousOrFusion\<close> with none.
\<close>

theorem emitted_records_coherent:
  assumes "assign_parents T enum filtered_transmap_dict unfiltered_transmap_dict denovo_dict
             cluster_df min_distance tm_jaccard_distance = Inr rs"
    and "r \<in> set rs"
  shows "record_coherent r"
  using assign_parents_record_origin [OF assms] resolve_denovo_tx_coherent by blast

theorem emitted_records_coherent_witness:
  "assign_parents spec_tools id ex_filtered_AC ex_unfiltered_dict ex_denovo_dict ex_rows_ACB
       ex_min_distance (1 / 4)
     = Inr [\<lparr> TranscriptId = ''augPB-4'', AssignedGeneId = Some ''A'',
               AlternativeGeneIds = Some ''B'', ResolutionMethod = Some rescued \<rparr>]
   \<and> record_coherent \<lparr> TranscriptId = ''augPB-4'', AssignedGeneId = Some ''A'',
               AlternativeGeneIds = Some ''B'', ResolutionMethod = Some rescued \<rparr>"
proof -
  let ?r = "\<lparr> TranscriptId = ''augPB-4'', AssignedGeneId = Some ''A'',
               AlternativeGeneIds = Some ''B'', ResolutionMethod = Some rescued \<rparr>"
  have a1: "assign_parents spec_tools id ex_filtered_AC ex_unfiltered_dict ex_denovo_dict ex_rows_ACB
       ex_min_distance (1 / 4) = Inr [?r]" by code_simp
  have a2: "?r \<in> set [?r]" by simp
  show ?thesis using a1 emitted_records_coherent [OF a1 a2] by simp
qed

section \<open>The claim about missing identifiers\<close>

lemma for_each_Inl_member:
  "x \<in> set xs \<Longrightarrow> isl (f x) \<Longrightarrow> isl (for_each f xs)"
  by (induction xs) (auto split: sum.splits)

lemma partition_cluster_missing:
  assumes "(tx_id, dn) \<in> set rows"
    and "if dn then dd tx_id = None else fd tx_id = None \<and> ud tx_id = None"
  shows "partition_cluster fd ud dd rows acc = Inl KeyError"
  using assms(1)
proof (induction rows arbitrary: acc)
  case Nil
  then show ?case by simp
next
  case (Cons row rows)
  obtain i d where row: "row = (i, d)" by (cases row)
  obtain U F D where acc: "acc = (U, F, D)" by (cases acc)
  show ?case
  proof (cases "row = (tx_id, dn)")
    case True
    then show ?thesis using assms(2) acc by (auto split: option.splits)
  next
    case False
    then have "(tx_id, dn) \<in> set rows" using Cons.prems by simp
    then show ?thesis using Cons.IH row acc by (auto split: option.splits)
  qed
qed

lemma groupby_cluster_member:
  "row \<in> set cluster_df \<Longrightarrow>
     filter (\<lambda>r. cluster r = cluster row) cluster_df \<in> set (groupby_cluster cluster_df)"
  by (auto simp: groupby_cluster_def)

text \<open>
  Claim C9, as amended. For every row of the cluster table that lies in a cluster with at
  least one de novo member and whose identifier its dictionary lacks (a de novo identifier
  missing from the de novo dictionary, a reference identifier missing from the filtered
  and the unfiltered dictionary), \<^verbatim>\<open>assign_parents\<close> raises an exception and returns nothing.
\<close>

theorem missing_identifier_raises:
  assumes "row \<in> set cluster_df"
    and "\<exists>r \<in> set cluster_df. cluster r = cluster row \<and> aln_id_is_denovo T (gene r)"
    and "missing_from_index T filtered_transmap_dict unfiltered_transmap_dict denovo_dict row"
  shows "\<exists>e. assign_parents T enum filtered_transmap_dict unfiltered_transmap_dict denovo_dict
                cluster_df min_distance tm_jaccard_distance = Inl e"
proof -
  let ?d = "filter (\<lambda>r. cluster r = cluster row) cluster_df"
  let ?rows = "map (\<lambda>r. (gene r, aln_id_is_denovo T (gene r))) ?d"
  have ex: "list_ex (\<lambda>r. aln_id_is_denovo T (gene r)) ?d"
    using assms(2) by (auto simp: list_ex_iff)
  have "row \<in> set ?d" using assms(1) by simp
  then have m: "(gene row, aln_id_is_denovo T (gene row)) \<in> set ?rows" by force
  have "partition_cluster filtered_transmap_dict unfiltered_transmap_dict denovo_dict ?rows ([], [], [])
          = Inl KeyError"
    using assms(3) unfolding missing_from_index_def
    by (intro partition_cluster_missing [OF m]) auto
  then have "isl (process_cluster T enum filtered_transmap_dict unfiltered_transmap_dict denovo_dict
                cluster_df min_distance tm_jaccard_distance ?d)"
    using ex by (simp add: process_cluster_def)
  then have "isl (for_each
             (process_cluster T enum filtered_transmap_dict unfiltered_transmap_dict denovo_dict
                cluster_df min_distance tm_jaccard_distance)
             (groupby_cluster cluster_df))"
    using for_each_Inl_member [OF groupby_cluster_member [OF assms(1)]] by blast
  then show ?thesis by (auto simp: assign_parents_def isl_def split: sum.splits)
qed

theorem missing_identifier_raises_witness:
  "ex_missing_row \<in> set (ex_rows_ACB @ [ex_missing_row])
   \<and> missing_from_index spec_tools ex_filtered_AC ex_unfiltered_dict ex_denovo_dict ex_missing_row
   \<and> isl (assign_parents spec_tools id ex_filtered_AC ex_unfiltered_dict ex_denovo_dict
        (ex_rows_ACB @ [ex_missing_row]) ex_min_distance (1 / 4))"
proof -
  have h1: "ex_missing_row \<in> set (ex_rows_ACB @ [ex_missing_row])" by simp
  have h2: "\<exists>r \<in> set (ex_rows_ACB @ [ex_missing_row]).
              cluster r = cluster ex_missing_row \<and> aln_id_is_denovo spec_tools (gene r)"
    by code_simp
  have h3: "missing_from_index spec_tools ex_filtered_AC ex_unfiltered_dict ex_denovo_dict
              ex_missing_row" by code_simp
  from missing_identifier_raises [OF h1 h2 h3, of id ex_min_distance "1 / 4"]
  have "isl (assign_parents spec_tools id ex_filtered_AC ex_unfiltered_dict ex_denovo_dict
        (ex_rows_ACB @ [ex_missing_row]) ex_min_distance (1 / 4))"
    by auto
  then show ?thesis using h1 h3 by blast
qed

text \<open>
  Claim C9 as stated fails: line 58 skips a cluster without de novo member before any
  lookup, so the row of cluster 2, whose identifier no dictionary has, raises nothing and
  the rows of cluster 1 are returned.
\<close>

theorem orphan_row_skipped_counterexample:
  "ex_orphan_row \<in> set (ex_rows_ACB @ [ex_orphan_row])
   \<and> missing_from_index spec_tools ex_filtered_AC ex_unfiltered_dict ex_denovo_dict ex_orphan_row
   \<and> assign_parents spec_tools id ex_filtered_AC ex_unfiltered_dict ex_denovo_dict
        (ex_rows_ACB @ [ex_orphan_row]) ex_min_distance (1 / 4)
       = Inr [\<lparr> TranscriptId = ''augPB-4'', AssignedGeneId = Some ''A'',
                AlternativeGeneIds = Some ''B'', ResolutionMethod = Some rescued \<rparr>]"
  by code_simp

section \<open>The claim about determinism\<close>

lemma tx_to_gene_ids_of_perm:
  assumes "distinct (map name xs)" and "mset xs = mset ys"
  shows "tx_to_gene_ids_of xs = tx_to_gene_ids_of ys"
proof
  fix n
  have "mset (map name xs) = mset (map name ys)" using assms(2) by simp
  from mset_eq_imp_distinct_iff [OF this] have dy: "distinct (map name ys)" using assms(1) by simp
  have s: "set xs = set ys" using assms(2) by (rule mset_eq_setD)
  have "(tx_to_gene_ids_of xs n = Some g) = (tx_to_gene_ids_of ys n = Some g)" for g
    using tx_to_gene_ids_of_Some [OF assms(1), of n g] tx_to_gene_ids_of_Some [OF dy, of n g] s
    by simp
  then show "tx_to_gene_ids_of xs n = tx_to_gene_ids_of ys n"
    by (metis not_Some_eq)
qed

lemma gene_overlap_cong:
  assumes "set xs = set ys"
  shows "gene_overlap T dn (gene_to_tx_ids_of xs) ud g = gene_overlap T dn (gene_to_tx_ids_of ys) ud g"
proof -
  have "set (map name (gene_txs xs g)) = set (map name (gene_txs ys g))"
    using gene_txs_set [OF assms, of g] by simp
  then have "calculate_tx_overlap T dn (map name (gene_txs xs g)) ud
           = calculate_tx_overlap T dn (map name (gene_txs ys g)) ud"
    by (rule calculate_tx_overlap_cong_set)
  then show ?thesis using assms by (simp only: gene_overlap_eq)
qed

lemma gene_txs_length: "mset xs = mset ys \<Longrightarrow> length (gene_txs xs g) = length (gene_txs ys g)"
proof -
  assume "mset xs = mset ys"
  then have "mset (gene_txs xs g) = mset (gene_txs ys g)"
    unfolding gene_txs_def by (simp only: mset_filter)
  then show ?thesis by (metis size_mset)
qed

lemma nonoverlapping_gene_ids_of_perm:
  assumes "mset xs = mset ys"
  shows "nonoverlapping_gene_ids_of (gene_to_tx_ids_of xs) ng
       = nonoverlapping_gene_ids_of (gene_to_tx_ids_of ys) ng"
  unfolding nonoverlapping_gene_ids_of_eq
  using gene_txs_length [OF assms] mset_eq_setD [OF assms] by simp

lemma find_interval_cong: "set a = set b \<Longrightarrow> find_interval T a = find_interval T b"
  by (simp add: find_interval_def)

lemma gene_score_cong: "set xs = set ys \<Longrightarrow> gene_score T dn xs g = gene_score T dn ys g"
  using gene_txs_set [of xs ys g] by (simp add: gene_score_def)

lemma score_table_cong: "set xs = set ys \<Longrightarrow> score_table T dn xs = score_table T dn ys"
  using gene_score_cong [of xs ys T dn] by (simp add: score_table_def)

lemma all_gene_pairs_exceed_cong:
  assumes "set xs = set ys"
  shows "all_gene_pairs_exceed T xs tj = all_gene_pairs_exceed T ys tj"
proof -
  have "find_highest_gene_jaccard T (gene_txs xs g1) (gene_txs xs g2)
      = find_highest_gene_jaccard T (gene_txs ys g1) (gene_txs ys g2)" for g1 g2
    unfolding find_highest_gene_jaccard_def
    using find_interval_cong [OF gene_txs_set [OF assms], of T] by simp
  then show ?thesis using assms by (simp add: all_gene_pairs_exceed_def)
qed

lemma resolve_multiple_genes_cong:
  assumes "\<forall>a b. calculate_bed12_jaccard T a b = calculate_bed12_jaccard T b a"
    and "set xs = set ys"
  shows "resolve_multiple_genes T dn xs md tj = resolve_multiple_genes T dn ys md tj"
  unfolding resolve_multiple_genes_eq gate_iff_all_pairs [OF assms(1)]
  using score_table_cong [OF assms(2)] all_gene_pairs_exceed_cong [OF assms(2)] by simp

lemma single_gene_match_cong:
  assumes "gene_overlap T dn g2t ud = gene_overlap T dn g2t' ud"
  shows "single_gene_match T dn g2t ud md g = single_gene_match T dn g2t' ud md g"
  unfolding single_gene_match_def assms ..

lemma emit_record_cong:
  assumes "gene_overlap T dn g2t ud = gene_overlap T dn g2t' ud"
  shows "emit_record T dn g2t ud md pool d = emit_record T dn g2t' ud md pool d"
  unfolding emit_record_def filtered_alternative_gene_ids_of_def assms ..

lemma resolve_pool_cong:
  assumes "\<forall>a b. calculate_bed12_jaccard T a b = calculate_bed12_jaccard T b a"
    and "set (e1 pool) = set (e2 pool)"
  shows "resolve_pool T e1 dn pool md tj = resolve_pool T e2 dn pool md tj"
  unfolding resolve_pool_def using resolve_multiple_genes_cong [OF assms] by simp

lemma primary_decision_cong:
  assumes sym: "\<forall>a b. calculate_bed12_jaccard T a b = calculate_bed12_jaccard T b a"
    and p1: "\<forall>xs. mset (e1 xs) = mset xs" and p2: "\<forall>xs. mset (e2 xs) = mset xs"
    and go: "gene_overlap T dn g2t ud = gene_overlap T dn g2t' ud"
  shows "primary_decision T e1 ud md tj F g2t dn nw = primary_decision T e2 ud md tj F g2t' dn nw"
proof -
  have s: "set (e1 pool) = set (e2 pool)" for pool
    using p1 p2 by (metis mset_eq_setD)
  have rp: "resolve_pool T e1 dn pool md tj = resolve_pool T e2 dn pool md tj" for pool
    using sym s [of pool] by (rule resolve_pool_cong)
  have sg: "single_gene_match T dn g2t ud md g = single_gene_match T dn g2t' ud md g" for g
    using go by (rule single_gene_match_cong)
  show ?thesis
    unfolding primary_decision_def decide_without_conflicts_def decide_with_conflicts_def
    by (simp only: rp sg)
qed

lemma exon_conflict_narrowing_cong:
  assumes p1: "\<forall>xs. mset (e1 xs) = mset xs" and p2: "\<forall>xs. mset (e2 xs) = mset xs"
    and dn: "distinct (map name (F @ U))"
  shows "exon_conflict_narrowing e1 fd df F U tx = exon_conflict_narrowing e2 fd df F U tx"
proof -
  have m1: "mset (e1 F @ e1 U) = mset (F @ U)" using p1 by simp
  have m2: "mset (e2 F @ e2 U) = mset (F @ U)" using p2 by simp
  have m: "mset (e1 F @ e1 U) = mset (e2 F @ e2 U)" using m1 m2 by simp
  have "mset (map name (e1 F @ e1 U)) = mset (map name (F @ U))" using m1 by (metis mset_map)
  from mset_eq_imp_distinct_iff [OF this] have d1: "distinct (map name (e1 F @ e1 U))"
    using dn by blast
  have t: "tx_to_gene_ids_of (e1 F @ e1 U) = tx_to_gene_ids_of (e2 F @ e2 U)"
    using d1 m by (rule tx_to_gene_ids_of_perm)
  have n: "nonoverlapping_gene_ids_of (gene_to_tx_ids_of (e1 F @ e1 U)) ng
         = nonoverlapping_gene_ids_of (gene_to_tx_ids_of (e2 F @ e2 U)) ng" for ng
    using m by (rule nonoverlapping_gene_ids_of_perm)
  show ?thesis
    unfolding exon_conflict_narrowing_def t n ..
qed

lemma resolve_denovo_tx_cong:
  assumes sym: "\<forall>a b. calculate_bed12_jaccard T a b = calculate_bed12_jaccard T b a"
    and p1: "\<forall>xs. mset (e1 xs) = mset xs" and p2: "\<forall>xs. mset (e2 xs) = mset xs"
    and dn: "distinct (map name (F @ U))"
  shows "resolve_denovo_tx T e1 fd ud df md tj F U tx = resolve_denovo_tx T e2 fd ud df md tj F U tx"
proof -
  have "mset (e1 F @ e1 U) = mset (e2 F @ e2 U)" using p1 p2 by simp
  then have s: "set (e1 F @ e1 U) = set (e2 F @ e2 U)" by (rule mset_eq_setD)
  have go: "gene_overlap T tx (gene_to_tx_ids_of (e1 F @ e1 U)) ud
          = gene_overlap T tx (gene_to_tx_ids_of (e2 F @ e2 U)) ud"
    using gene_overlap_cong [OF s] by (intro ext)
  have nw: "exon_conflict_narrowing e1 fd df F U tx = exon_conflict_narrowing e2 fd df F U tx"
    using p1 p2 dn by (rule exon_conflict_narrowing_cong)
  have pd: "primary_decision T e1 ud md tj F (gene_to_tx_ids_of (e1 F @ e1 U)) tx w
          = primary_decision T e2 ud md tj F (gene_to_tx_ids_of (e2 F @ e2 U)) tx w" for w
    using sym p1 p2 go by (rule primary_decision_cong)
  have er: "emit_record T tx (gene_to_tx_ids_of (e1 F @ e1 U)) ud md pool d
          = emit_record T tx (gene_to_tx_ids_of (e2 F @ e2 U)) ud md pool d" for pool d
    using go by (rule emit_record_cong)
  show ?thesis
    unfolding resolve_denovo_tx_eq nw pd er ..
qed

lemma for_each_isl: "isl (for_each f xs) = (\<exists>x \<in> set xs. isl (f x))"
  by (induction xs) (auto split: sum.splits)

lemma for_each_Inr: "\<not> isl (for_each f xs) \<Longrightarrow> for_each f xs = Inr (map (\<lambda>x. projr (f x)) xs)"
  by (induction xs) (auto split: sum.splits)

lemma same_records_refl: "same_records a a"
  by (simp add: same_records_def split: sum.splits)

lemma for_each_perm:
  assumes "mset xs = mset ys"
  shows "same_records (for_each f xs) (for_each f ys)"
proof (cases "isl (for_each f xs)")
  case True
  then have "isl (for_each f ys)"
    using mset_eq_setD [OF assms] by (simp add: for_each_isl)
  then show ?thesis using True by (auto simp: same_records_def isl_def)
next
  case False
  then have fy: "\<not> isl (for_each f ys)"
    using mset_eq_setD [OF assms] by (simp add: for_each_isl)
  have "mset (map (\<lambda>x. projr (f x)) xs) = mset (map (\<lambda>x. projr (f x)) ys)"
    using assms by (metis mset_map)
  then show ?thesis
    using for_each_Inr [OF False] for_each_Inr [OF fy] by (simp add: same_records_def)
qed

lemma partition_cluster_inv:
  assumes "keyed_by_name fd" "keyed_by_name ud"
  shows "partition_cluster fd ud dd rows (U0, F0, D0) = Inr (U, F, D) \<Longrightarrow>
         partition_inv fd ud U0 F0 \<Longrightarrow> partition_inv fd ud U F"
proof (induction rows arbitrary: U0 F0 D0)
  case Nil
  then show ?case by simp
next
  case (Cons row rows)
  obtain i d where row: "row = (i, d)" by (cases row)
  show ?case
  proof (cases d)
    case True
    then show ?thesis using Cons row by (auto split: option.splits)
  next
    case False
    show ?thesis
    proof (cases "fd i")
      case (Some t)
      then have nt: "name t = i" using assms(1) by (simp add: keyed_by_name_def)
      have "partition_inv fd ud U0 (set_add t F0)"
        using Cons.prems(2) Some nt
        by (auto simp: partition_inv_def set_add_distinct set_set_add)
      moreover have "partition_cluster fd ud dd rows (U0, set_add t F0, D0) = Inr (U, F, D)"
        using Cons.prems(1) row False Some by simp
      ultimately show ?thesis using Cons.IH by blast
    next
      case None
      show ?thesis
      proof (cases "ud i")
        case N2: None
        then show ?thesis using Cons.prems(1) row False None by simp
      next
        case (Some t)
        then have nt: "name t = i" using assms(2) by (simp add: keyed_by_name_def)
        have "partition_inv fd ud (set_add t U0) F0"
          using Cons.prems(2) Some None nt
          by (auto simp: partition_inv_def set_add_distinct set_set_add)
        moreover have "partition_cluster fd ud dd rows (set_add t U0, F0, D0) = Inr (U, F, D)"
          using Cons.prems(1) row False None Some by simp
        ultimately show ?thesis using Cons.IH by blast
      qed
    qed
  qed
qed

lemma partition_inv_distinct_names:
  assumes "partition_inv fd ud U F"
  shows "distinct (map name (F @ U))"
proof -
  have iF: "inj_on name (set F)"
    using assms unfolding partition_inv_def by (intro inj_onI) (metis option.inject)
  have iU: "inj_on name (set U)"
    using assms unfolding partition_inv_def by (intro inj_onI) (metis option.inject)
  have dj: "name ` set F \<inter> name ` set U = {}"
    using assms unfolding partition_inv_def by force
  show ?thesis
    using assms iF iU dj by (simp add: partition_inv_def distinct_map)
qed

lemma process_cluster_deterministic:
  assumes sym: "\<forall>a b. calculate_bed12_jaccard T a b = calculate_bed12_jaccard T b a"
    and p1: "\<forall>xs. mset (e1 xs) = mset xs" and p2: "\<forall>xs. mset (e2 xs) = mset xs"
    and k: "keyed_by_name fd" "keyed_by_name ud"
  shows "same_records (process_cluster T e1 fd ud dd df md tj d) (process_cluster T e2 fd ud dd df md tj d)"
proof (cases "list_ex (\<lambda>r. aln_id_is_denovo T (gene r)) d")
  case False
  then show ?thesis by (simp add: process_cluster_def same_records_def)
next
  case True
  show ?thesis
  proof (cases "partition_cluster fd ud dd (map (\<lambda>r. (gene r, aln_id_is_denovo T (gene r))) d) ([], [], [])")
    case (Inl e)
    then show ?thesis using True by (simp add: process_cluster_def same_records_def)
  next
    case (Inr res)
    obtain U F D where res: "res = (U, F, D)" by (cases res)
    have "partition_inv fd ud [] []" by (simp add: partition_inv_def)
    from partition_cluster_inv [OF k Inr [unfolded res] this]
    have dn: "distinct (map name (F @ U))" by (rule partition_inv_distinct_names)
    have f: "resolve_denovo_tx T e1 fd ud df md tj F U = resolve_denovo_tx T e2 fd ud df md tj F U"
      using resolve_denovo_tx_cong [OF sym p1 p2 dn] by (intro ext)
    have "mset (e1 D) = mset (e2 D)" using p1 p2 by simp
    from for_each_perm [OF this]
    have "same_records (for_each (resolve_denovo_tx T e1 fd ud df md tj F U) (e1 D))
                    (for_each (resolve_denovo_tx T e2 fd ud df md tj F U) (e2 D))"
      unfolding f .
    then show ?thesis using True Inr res by (simp add: process_cluster_def)
  qed
qed

lemma for_each_same_records:
  assumes "\<And>x. x \<in> set xs \<Longrightarrow> same_records (f x) (g x)"
  shows "same_records (map_sum id concat (for_each f xs)) (map_sum id concat (for_each g xs))"
  using assms
proof (induction xs)
  case Nil
  then show ?case by (simp add: same_records_def)
next
  case (Cons x xs)
  have a: "same_records (f x) (g x)" using Cons.prems by simp
  have b: "same_records (map_sum id concat (for_each f xs)) (map_sum id concat (for_each g xs))"
    by (rule Cons.IH) (simp add: Cons.prems)
  show ?case
    using a b
    by (cases "f x"; cases "g x"; cases "for_each f xs"; cases "for_each g xs")
       (auto simp: same_records_def)
qed

lemma assign_parents_map_sum:
  "assign_parents T enum fd ud dd df md tj =
     map_sum id concat (for_each (process_cluster T enum fd ud dd df md tj) (groupby_cluster df))"
  by (simp add: assign_parents_def split: sum.splits)

lemma intersection_length_commute: "intersection_length a b = intersection_length b a"
  by (simp add: intersection_length_def min.commute max.commute)

lemma shared_length_Nil_right: "shared_length A [] = 0"
  by (induction A) (simp_all add: shared_length_def)

lemma shared_length_Cons_right:
  "shared_length A (b # B) = sum_list (map (\<lambda>a. intersection_length a b) A) + shared_length A B"
  by (induction A) (simp_all add: shared_length_def)

lemma shared_length_commute: "shared_length A B = shared_length B A"
proof (induction A)
  case Nil
  then show ?case by (simp add: shared_length_Nil_right) (simp add: shared_length_def)
next
  case (Cons a A)
  have "shared_length (a # A) B = sum_list (map (intersection_length a) B) + shared_length A B"
    by (simp add: shared_length_def)
  also have "\<dots> = sum_list (map (\<lambda>b. intersection_length b a) B) + shared_length B A"
  proof -
    have m: "map (intersection_length a) B = map (\<lambda>b. intersection_length b a) B"
      by (rule map_cong) (simp_all add: intersection_length_commute [of a])
    show ?thesis unfolding m Cons.IH ..
  qed
  also have "\<dots> = shared_length B (a # A)"
    by (simp add: shared_length_Cons_right)
  finally show ?case .
qed

lemma symmetricOverlap_commute: "symmetricOverlap A B = symmetricOverlap B A"
  by (simp add: symmetricOverlap_def shared_length_commute [of A B] add.commute)

text \<open>
  Claim C10. Two runs on the same cluster table and the same three dictionaries, whatever
  orders \<open>enum1\<close> and \<open>enum2\<close> the interpreter enumerates the sets of transcripts in,
  both raise or return the same rows, up to the order of the rows. The Jaccard function of
  \<^verbatim>\<open>tools.intervals\<close> is taken to be symmetric, and the dictionaries to map an identifier
  to the transcript of that identifier.
\<close>

theorem assign_parents_deterministic:
  assumes "\<forall>a b. calculate_bed12_jaccard T a b = calculate_bed12_jaccard T b a"
    and "\<forall>xs. mset (enum1 xs) = mset xs" and "\<forall>xs. mset (enum2 xs) = mset xs"
    and "keyed_by_name filtered_transmap_dict" and "keyed_by_name unfiltered_transmap_dict"
  shows "same_records
           (assign_parents T enum1 filtered_transmap_dict unfiltered_transmap_dict denovo_dict
              cluster_df min_distance tm_jaccard_distance)
           (assign_parents T enum2 filtered_transmap_dict unfiltered_transmap_dict denovo_dict
              cluster_df min_distance tm_jaccard_distance)"
  unfolding assign_parents_map_sum
  by (rule for_each_same_records) (rule process_cluster_deterministic [OF assms])

theorem assign_parents_deterministic_witness:
  "same_records
     (assign_parents spec_tools id ex_filtered_AC ex_unfiltered_dict ex_denovo_dict ex_rows_ACB
        ex_min_distance (1 / 4))
     (assign_parents spec_tools rev ex_filtered_AC ex_unfiltered_dict ex_denovo_dict ex_rows_ACB
        ex_min_distance (1 / 4))"
proof -
  have h1: "\<forall>a b. calculate_bed12_jaccard spec_tools a b = calculate_bed12_jaccard spec_tools b a"
    by (simp add: spec_tools_def symmetricOverlap_commute)
  have h2: "\<forall>xs :: transcript list. mset (id xs) = mset xs" by simp
  have h3: "\<forall>xs :: transcript list. mset (rev xs) = mset xs" by simp
  have h4: "keyed_by_name ex_filtered_AC"
    by (auto simp: keyed_by_name_def ex_filtered_AC_def ex_txA_def ex_txC_def split: if_splits)
  have h5: "keyed_by_name ex_unfiltered_dict"
    by (auto simp: keyed_by_name_def ex_unfiltered_dict_def ex_txA_def ex_txA2_def ex_txB_def
        ex_txC_def ex_txD_def split: if_splits)
  show ?thesis by (rule assign_parents_deterministic [OF h1 h2 h3 h4 h5])
qed

end
